theory Spec2Isabelle
  imports Complex_Main "HOL-Library.Word" "HOL-Library.AList" "HOL-Library.Sublist"
    "HOL-Library.Multiset"
    "HOL-Library.Stream"
begin

section \<open>Layer separation (modules/layer\_separator.py)\<close>

text \<open>
  Images are the NumPy arrays the source works on: a list of rows of RGBA pixels with
  8-bit channels. A mask is a Boolean array of the same shape. Python exceptions are
  values of \<open>error\<close>.
\<close>

datatype error = StopIteration | TypeError | ZeroDivisionError | ValueError

type_synonym pixel = "8 word \<times> 8 word \<times> 8 word \<times> 8 word"
type_synonym image = "pixel list list"
type_synonym mask = "bool list list"

record layers_config =
  segmentation_model :: string
  refine_edges :: bool
  parts :: "string list"
  fill_background :: bool
  background_color :: pixel
  export_psd :: bool

subsection \<open>The part hierarchy\<close>

definition part_hierarchy :: "string \<rightharpoonup> int" where
  "part_hierarchy = map_of
     [(''background'', 0),
      (''hair_back'', 1),
      (''body'', 2),
      (''arm_left'', 3),
      (''arm_right'', 3),
      (''leg_left'', 3),
      (''leg_right'', 3),
      (''face'', 4),
      (''eye_white_left'', 5),
      (''eye_white_right'', 5),
      (''iris_left'', 6),
      (''iris_right'', 6),
      (''highlight_left'', 7),
      (''highlight_right'', 7),
      (''eyebrows_left'', 8),
      (''eyebrows_right'', 8),
      (''nose'', 9),
      (''mouth'', 10),
      (''upper_lip'', 11),
      (''lower_lip'', 11),
      (''hair_side'', 12),
      (''hair_front'', 13),
      (''accessories'', 14)]"

text \<open>The sort key of \<open>_create_psd\<close>: \<open>self.part_hierarchy.get(p, 999)\<close>.\<close>

definition rankOf :: "string \<Rightarrow> int" where
  "rankOf p = (case part_hierarchy p of Some r \<Rightarrow> r | None \<Rightarrow> 999)"

subsection \<open>Segmenting one part\<close>

definition img_height :: "'a list list \<Rightarrow> nat" where
  "img_height img = length img"

definition img_width :: "'a list list \<Rightarrow> nat" where
  "img_width img = (case img of [] \<Rightarrow> 0 | r # _ \<Rightarrow> length r)"

text \<open>\<open>m.sum()\<close>: the number of True entries of a mask.\<close>

definition area :: "mask \<Rightarrow> nat" where
  "area m = sum_list (map (\<lambda>row. length (filter id row)) m)"

text \<open>
  \<open>mask = np.zeros((height, width)); mask[row_lo:row_hi, col_lo:col_hi] = True\<close>.
\<close>

definition rect_mask :: "nat \<Rightarrow> nat \<Rightarrow> nat \<Rightarrow> nat \<Rightarrow> nat \<Rightarrow> nat \<Rightarrow> mask" where
  "rect_mask height width row_lo row_hi col_lo col_hi =
     map (\<lambda>y. map (\<lambda>x. row_lo \<le> y \<and> y < row_hi \<and> col_lo \<le> x \<and> x < col_hi) [0..<width])
       [0..<height]"

text \<open>
  The fallback of \<open>_segment_part\<close> when the main model gave no mask: a fixed region
  for part names containing \<open>eye\<close>, \<open>mouth\<close> or \<open>hair\<close> (tested in this order),
  and no mask at all for any other name.
\<close>

definition fallback_masks :: "image \<Rightarrow> string \<Rightarrow> mask list" where
  "fallback_masks np_image part_name =
     (let height = img_height np_image; width = img_width np_image in
      if sublist ''eye'' part_name then
        [rect_mask height width (height div 4) (height div 2) (width div 4) (3 * width div 4)]
      else if sublist ''mouth'' part_name then
        [rect_mask height width (height div 2) (3 * height div 4) (width div 3) (2 * width div 3)]
      else if sublist ''hair'' part_name then
        [rect_mask height width 0 (height div 2) 0 width]
      else [])"

text \<open>
  \<open>_segment_with_sam\<close> runs the external Segment Anything predictor on sampled prompt
  points; it is the parameter \<open>sam\<close>, any function from the image and the part name to
  a list of candidate masks.
\<close>

definition candidate_masks ::
  "(image \<Rightarrow> string \<Rightarrow> mask list) \<Rightarrow> layers_config \<Rightarrow> image \<Rightarrow> string \<Rightarrow> mask list" where
  "candidate_masks sam cfg np_image part_name =
     (let masks = (if segmentation_model cfg = ''segment_anything''
                   then sam np_image part_name else [])
      in if masks = [] then fallback_masks np_image part_name else masks)"

text \<open>
  \<open>sorted(masks, key=lambda m: m.sum(), reverse=True)\<close>. Python's sort is stable, and
  with \<open>reverse=True\<close> it reverses the list, sorts it ascending and reverses the
  result, so equal keys keep their original order.
\<close>

definition sorted_reverse :: "('a \<Rightarrow> nat) \<Rightarrow> 'a list \<Rightarrow> 'a list" where
  "sorted_reverse key xs = rev (sort_key key (rev xs))"

text \<open>
  \<open>result[selected_mask, :3] = np_image[selected_mask, :3]; result[selected_mask, 3] = 255\<close>
  on a zero-initialised RGBA array. The masks of the model and of the fallback have the
  shape of the image.
\<close>

definition apply_mask :: "image \<Rightarrow> mask \<Rightarrow> image" where
  "apply_mask np_image selected_mask =
     map2 (\<lambda>irow mrow.
        map2 (\<lambda>(r, g, b, a) sel. if sel then (r, g, b, 255) else (0, 0, 0, 0)) irow mrow)
       np_image selected_mask"

text \<open>
  \<open>_segment_part\<close>. The Gaussian blur of the alpha channel is the external OpenCV
  call, the parameter \<open>blur\<close>. The result is \<open>None\<close> when there is no mask.
\<close>

definition segment_part ::
  "(image \<Rightarrow> string \<Rightarrow> mask list) \<Rightarrow> (image \<Rightarrow> image) \<Rightarrow> layers_config \<Rightarrow> image \<Rightarrow> string
     \<Rightarrow> image option" where
  "segment_part sam blur cfg np_image part_name =
     (case sorted_reverse area (candidate_masks sam cfg np_image part_name) of
        [] \<Rightarrow> None
      | selected_mask # _ \<Rightarrow>
          (let segmented_image = apply_mask np_image selected_mask
           in Some (if refine_edges cfg then blur segmented_image else segmented_image)))"

subsection \<open>Building the layer dictionary and the PSD stack\<close>

text \<open>
  A Python dict keeps insertion order and an assignment to an existing key keeps the
  key's position: \<open>AList.update\<close> on an association list.
\<close>

definition collect_layers ::
  "(image \<Rightarrow> string \<Rightarrow> mask list) \<Rightarrow> (image \<Rightarrow> image) \<Rightarrow> layers_config \<Rightarrow> image
     \<Rightarrow> (string \<times> image) list" where
  "collect_layers sam blur cfg no_bg_image =
     foldl (\<lambda>layers part_name.
        case segment_part sam blur cfg no_bg_image part_name of
          None \<Rightarrow> layers
        | Some segmented_part \<Rightarrow> AList.update part_name segmented_part layers)
       [] (parts cfg)"

text \<open>\<open>Image.new("RGBA", no_bg_image.size, bg_color)\<close>.\<close>

definition new_image :: "image \<Rightarrow> pixel \<Rightarrow> image" where
  "new_image like bg_color = map (map (\<lambda>_. bg_color)) like"

text \<open>
  \<open>_create_psd\<close> works through the external library \<open>psd_tools\<close>, which is a parameter:
  it may be missing (\<open>NotInstalled\<close>); it may be the released library, whose
  \<open>PSDImage.new\<close> takes a mode and a size and rejects the keyword arguments \<open>width\<close>,
  \<open>height\<close> and \<open>color_mode\<close> of the call in the source (\<open>KeywordsRejected\<close>); or it may
  offer the interface the source calls (\<open>KeywordsAccepted\<close>).

  The statements run in the order of the source. The import fails on a missing library;
  \<open>ImportError\<close> is the one exception caught, it is logged and no file is made: result
  \<open>Inr None\<close>. Then \<open>next(iter(layers.values()))\<close> raises \<open>StopIteration\<close> on an empty
  dictionary. Then \<open>PSDImage.new(width=..., height=..., color_mode=...)\<close> raises
  \<open>TypeError\<close> in the released library, before the parts are sorted. Only a library that
  accepts the call reaches the sort, and its layers are created in the order of
  \<open>ordered_parts\<close>.
\<close>

datatype psd_library = NotInstalled | KeywordsRejected | KeywordsAccepted

text \<open>
  \<open>sorted(layers.keys(), key=lambda p: self.part_hierarchy.get(p, 999))\<close>: Python's
  \<open>sorted\<close> is stable, as is the insertion sort \<open>sort_key\<close>.
\<close>

definition ordered_parts :: "(string \<times> 'a) list \<Rightarrow> string list" where
  "ordered_parts layers = sort_key rankOf (map fst layers)"

definition create_psd ::
  "psd_library \<Rightarrow> (string \<times> 'a) list \<Rightarrow> error + (string \<times> 'a) list option" where
  "create_psd psd_tools layers =
     (if psd_tools = NotInstalled then Inr None
      else if layers = [] then Inl StopIteration
      else if psd_tools = KeywordsRejected then Inl TypeError
      else Inr (Some (List.map_filter
                  (\<lambda>part_name. map_option (Pair part_name) (map_of layers part_name))
                  (ordered_parts layers))))"

text \<open>
  \<open>separate\<close>, without its file output: the layer dictionary and, when
  \<open>export_psd\<close> is set, the outcome of \<open>_create_psd\<close>.
\<close>

definition separate ::
  "(image \<Rightarrow> string \<Rightarrow> mask list) \<Rightarrow> (image \<Rightarrow> image) \<Rightarrow> psd_library \<Rightarrow> layers_config
     \<Rightarrow> image \<Rightarrow> error + ((string \<times> image) list \<times> (string \<times> image) list option)" where
  "separate sam blur psd_tools cfg no_bg_image =
     (let layers = collect_layers sam blur cfg no_bg_image;
          layers = (if fill_background cfg
                    then AList.update ''background''
                           (new_image no_bg_image (background_color cfg)) layers
                    else layers)
      in if export_psd cfg then
           (case create_psd psd_tools layers of
              Inl e \<Rightarrow> Inl e
            | Inr psd \<Rightarrow> Inr (layers, psd))
         else Inr (layers, None))"

section \<open>Parameter curves (modules/parameters\_gen.py)\<close>

text \<open>
  Python floats are modelled as real numbers with exact arithmetic. A keyframe is the
  dictionary \<open>{"time": t, "value": v}\<close>. The process-wide generator of the
  \<open>random\<close> module is made explicit: its state is the stream of the numbers that
  successive calls of \<open>random.random()\<close> return (each in the interval from 0 to 1),
  and \<open>random.uniform(a, b)\<close> is \<open>a + (b - a) * random.random()\<close>.
\<close>

record keyframe =
  kf_time :: real
  kf_value :: real

type_synonym rng = "real stream"

definition random_uniform :: "real \<Rightarrow> real \<Rightarrow> rng \<Rightarrow> real \<times> rng" where
  "random_uniform a b g = (a + (b - a) * shd g, stl g)"

subsection \<open>Eye blink\<close>

record blink_state =
  current_time :: real
  keyframes :: "keyframe list"
  rng_state :: rng

text \<open>\<open>keyframes.append({"time": current_time, "value": v})\<close>\<close>

definition append_kf :: "real \<Rightarrow> blink_state \<Rightarrow> blink_state" where
  "append_kf v s = s\<lparr>keyframes := keyframes s @ [\<lparr>kf_time = current_time s, kf_value = v\<rparr>]\<rparr>"

text \<open>\<open>current_time += dt\<close>\<close>

definition advance :: "real \<Rightarrow> blink_state \<Rightarrow> blink_state" where
  "advance dt s = s\<lparr>current_time := current_time s + dt\<rparr>"

text \<open>The twelve keyframes that one iteration of the loop appends.\<close>

definition blink_cycle :: "blink_state \<Rightarrow> blink_state" where
  "blink_cycle s0 =
     (let s = append_kf 1.0 s0;
          s = append_kf 0.9 (advance 0.02 s);
          s = append_kf 0.7 (advance 0.02 s);
          s = append_kf 0.5 (advance 0.02 s);
          s = append_kf 0.2 (advance 0.02 s);
          s = append_kf 0.0 (advance 0.02 s);
          s = append_kf 0.0 (advance 0.06 s);
          s = append_kf 0.2 (advance 0.02 s);
          s = append_kf 0.5 (advance 0.02 s);
          s = append_kf 0.7 (advance 0.02 s);
          s = append_kf 0.9 (advance 0.02 s);
          s = append_kf 1.0 (advance 0.02 s)
      in s)"

text \<open>The wait for the next blink that ends the iteration.\<close>

definition blink_wait :: "bool \<Rightarrow> real \<Rightarrow> blink_state \<Rightarrow> blink_state" where
  "blink_wait random_blink interval s =
     (if random_blink then
        (case random_uniform (interval * 0.7) (interval * 1.3) (rng_state s) of
           (wait_time, g) \<Rightarrow> advance wait_time (s\<lparr>rng_state := g\<rparr>))
      else advance interval s)"

definition blink_total_time :: real where
  "blink_total_time = 10.0"

text \<open>\<open>while current_time < total_time\<close>; a loop that does not end has no result.\<close>

partial_function (option) blink_loop :: "bool \<Rightarrow> real \<Rightarrow> blink_state \<Rightarrow> blink_state option" where
  "blink_loop random_blink interval s =
     (if current_time s < blink_total_time
      then blink_loop random_blink interval (blink_wait random_blink interval (blink_cycle s))
      else Some s)"

declare blink_loop.simps [code]

text \<open>\<open>blink_duration = 0.3 / speed\<close>: computed by the source and not used afterwards.\<close>

definition blink_duration :: "real \<Rightarrow> real" where
  "blink_duration speed = 0.3 / speed"

text \<open>
  \<open>_create_eye_blink_curve\<close>: the keyframes, together with the state in which the call
  leaves the random generator. The division raises for speed 0.
\<close>

definition create_eye_blink_curve ::
  "real \<Rightarrow> bool \<Rightarrow> rng \<Rightarrow> (error + keyframe list \<times> rng) option" where
  "create_eye_blink_curve speed random_blink g0 =
     (if speed = 0 then Some (Inl ZeroDivisionError)
      else
        (case (if random_blink then random_uniform 2.0 6.0 g0 else (4.0, g0)) of
           (interval, g) \<Rightarrow>
             map_option (\<lambda>s. Inr (keyframes s, rng_state s))
               (blink_loop random_blink interval
                  \<lparr>current_time = 0.0, keyframes = [], rng_state = g\<rparr>)))"

subsection \<open>Lip sync\<close>

definition lip_total_time :: real where
  "lip_total_time = 5.0"

definition syllable_count :: nat where
  "syllable_count = 10"

text \<open>One iteration of the loop of \<open>_create_sample_lip_sync\<close>.\<close>

definition lip_sync_syllable :: "keyframe list \<times> rng \<Rightarrow> nat \<Rightarrow> keyframe list \<times> rng" where
  "lip_sync_syllable acc i =
     (case acc of (kfs, g) \<Rightarrow>
        (let start_time = real i * (lip_total_time / real syllable_count) in
         case random_uniform 0.3 0.7 g of
           (max_open, g') \<Rightarrow>
             (kfs @ [\<lparr>kf_time = start_time, kf_value = 0.0\<rparr>,
                     \<lparr>kf_time = start_time + 0.1, kf_value = max_open\<rparr>,
                     \<lparr>kf_time = start_time + 0.2, kf_value = 0.2\<rparr>,
                     \<lparr>kf_time = start_time + 0.3, kf_value = 0.0\<rparr>], g')))"

definition create_sample_lip_sync :: "rng \<Rightarrow> keyframe list \<times> rng" where
  "create_sample_lip_sync g = foldl lip_sync_syllable ([], g) [0..<syllable_count]"

subsection \<open>Head rotation and breathing\<close>

definition axis_frequency :: "string \<Rightarrow> real" where
  "axis_frequency axis = (if axis = ''x'' then 0.2 else if axis = ''y'' then 0.15 else 0.1)"

definition axis_phase :: "string \<Rightarrow> real" where
  "axis_phase axis = (if axis = ''x'' then 0.0 else if axis = ''y'' then 1.57 else 3.14)"

definition curve_total_time :: real where
  "curve_total_time = 10.0"

definition curve_step :: real where
  "curve_step = 0.1"

text \<open>\<open>range(int(total_time / step) + 1)\<close>\<close>

definition sample_indices :: "nat list" where
  "sample_indices = [0..<nat \<lfloor>curve_total_time / curve_step\<rfloor> + 1]"

text \<open>
  \<open>_create_head_rotation_curve\<close>. Unpacking \<open>min_val, max_val = range_values\<close> raises
  \<open>ValueError\<close> unless the list has exactly two elements.
\<close>

definition create_head_rotation_curve :: "string \<Rightarrow> real list \<Rightarrow> error + keyframe list" where
  "create_head_rotation_curve axis range_values =
     (case range_values of
        [min_val, max_val] \<Rightarrow>
          (let frequency = axis_frequency axis;
               phase = axis_phase axis;
               mid_val = (min_val + max_val) / 2;
               amplitude = (max_val - min_val) / 2
           in Inr (map (\<lambda>t. let time_point = real t * curve_step in
                         \<lparr>kf_time = time_point,
                          kf_value = mid_val + amplitude * sin (2 * pi * frequency * time_point + phase)\<rparr>)
                     sample_indices))
      | _ \<Rightarrow> Inl ValueError)"


section \<open>Rig parameters (modules/cubism\_automation.py)\<close>


section \<open>Notions used in the statements\<close>

text \<open>The value sequence of one blink, as the specification lists it.\<close>

definition blink_values :: "real list" where
  "blink_values = [1.0, 0.9, 0.7, 0.5, 0.2, 0.0, 0.0, 0.2, 0.5, 0.7, 0.9, 1.0]"

text \<open>The twelve keyframes of a blink that starts at time \<open>t\<close>.\<close>

definition cycle_keyframes :: "real \<Rightarrow> keyframe list" where
  "cycle_keyframes t =
     [\<lparr>kf_time = t, kf_value = 1.0\<rparr>,
      \<lparr>kf_time = t + 0.02, kf_value = 0.9\<rparr>,
      \<lparr>kf_time = t + 0.04, kf_value = 0.7\<rparr>,
      \<lparr>kf_time = t + 0.06, kf_value = 0.5\<rparr>,
      \<lparr>kf_time = t + 0.08, kf_value = 0.2\<rparr>,
      \<lparr>kf_time = t + 0.10, kf_value = 0.0\<rparr>,
      \<lparr>kf_time = t + 0.16, kf_value = 0.0\<rparr>,
      \<lparr>kf_time = t + 0.18, kf_value = 0.2\<rparr>,
      \<lparr>kf_time = t + 0.20, kf_value = 0.5\<rparr>,
      \<lparr>kf_time = t + 0.22, kf_value = 0.7\<rparr>,
      \<lparr>kf_time = t + 0.24, kf_value = 0.9\<rparr>,
      \<lparr>kf_time = t + 0.26, kf_value = 1.0\<rparr>]"

text \<open>
  The full cycles of a blink curve: its keyframes in groups of twelve, as the loop
  appends them. A shorter rest would not be a full cycle.
\<close>

fun cycles_of :: "keyframe list \<Rightarrow> keyframe list list" where
  "cycles_of kfs =
     (if length kfs < 12 then [] else take 12 kfs # cycles_of (drop 12 kfs))"

declare cycles_of.simps [simp del]

text \<open>The time from each keyframe of a cycle to the next, and from its first to its last.\<close>

definition step_durations :: "keyframe list \<Rightarrow> real list" where
  "step_durations c = map2 (\<lambda>a b. kf_time b - kf_time a) c (tl c)"

definition cycle_duration :: "keyframe list \<Rightarrow> real" where
  "cycle_duration c = (case c of [] \<Rightarrow> 0 | k # _ \<Rightarrow> kf_time (last c) - kf_time k)"

text \<open>The four keyframes of a syllable, as the specification lists them.\<close>

definition syllable_keyframes :: "real \<Rightarrow> real \<Rightarrow> keyframe list" where
  "syllable_keyframes start max_open =
     [\<lparr>kf_time = start, kf_value = 0.0\<rparr>,
      \<lparr>kf_time = start + 0.1, kf_value = max_open\<rparr>,
      \<lparr>kf_time = start + 0.2, kf_value = 0.2\<rparr>,
      \<lparr>kf_time = start + 0.3, kf_value = 0.0\<rparr>]"

text \<open>The time from the end of each cycle to the start of the next.\<close>

definition cycle_gaps :: "keyframe list list \<Rightarrow> real list" where
  "cycle_gaps cs = map2 (\<lambda>a b. kf_time (hd b) - kf_time (last a)) cs (tl cs)"

text \<open>The keyframes of the curve with \<open>random_blink = False\<close>.\<close>

definition periodic_blink :: "keyframe list" where
  "periodic_blink = cycle_keyframes 0 @ cycle_keyframes 4.26 @ cycle_keyframes 8.52"




text \<open>
  One iteration of the loop of \<open>_create_eye_blink_curve\<close>, the interval it waits with
  and the state it starts from.
\<close>

definition blink_iteration :: "bool \<Rightarrow> real \<Rightarrow> blink_state \<Rightarrow> blink_state" where
  "blink_iteration random_blink interval s = blink_wait random_blink interval (blink_cycle s)"

definition blink_interval :: "bool \<Rightarrow> rng \<Rightarrow> real" where
  "blink_interval random_blink g =
     fst (if random_blink then random_uniform 2.0 6.0 g else (4.0, g))"

definition blink_start :: "bool \<Rightarrow> rng \<Rightarrow> blink_state" where
  "blink_start random_blink g =
     \<lparr>current_time = 0.0, keyframes = [],
      rng_state = snd (if random_blink then random_uniform 2.0 6.0 g else (4.0, g))\<rparr>"

text \<open>The state of the loop after \<open>i\<close> iterations.\<close>

definition blink_state_at :: "bool \<Rightarrow> rng \<Rightarrow> nat \<Rightarrow> blink_state" where
  "blink_state_at random_blink g i =
     (blink_iteration random_blink (blink_interval random_blink g) ^^ i)
       (blink_start random_blink g)"

text \<open>The number of True pixels of a mask, the \<open>m.sum()\<close> of the source.\<close>

definition true_pixels :: "mask \<Rightarrow> nat" where
  "true_pixels m = length (filter id (concat m))"

section \<open>Concrete inputs\<close>

definition cfg_u2net :: layers_config where
  "cfg_u2net = \<lparr>segmentation_model = ''u2net'', refine_edges = False,
     parts = [''hair_back'', ''body''], fill_background = False,
     background_color = (255, 255, 255, 255), export_psd = False\<rparr>"

definition cfg_sam :: layers_config where
  "cfg_sam = \<lparr>segmentation_model = ''segment_anything'', refine_edges = False,
     parts = [''face''], fill_background = False,
     background_color = (255, 255, 255, 255), export_psd = True\<rparr>"

definition img1 :: image where
  "img1 = [[(10, 20, 30, 255)]]"

definition img2 :: image where
  "img2 = [[(10, 20, 30, 255), (40, 50, 60, 255)]]"

definition sam_none :: "image \<Rightarrow> string \<Rightarrow> mask list" where
  "sam_none np_image part_name = []"

definition sam_two :: "image \<Rightarrow> string \<Rightarrow> mask list" where
  "sam_two np_image part_name = [[[False, True]], [[True, True]]]"

definition rng_a :: rng where
  "rng_a = 0 ## sconst (2 / 3)"

definition rng_half :: rng where
  "rng_half = sconst (1 / 2)"


definition six_layers :: "(string \<times> nat) list" where
  "six_layers = [(''eyebrows_left'', 1), (''tail'', 2), (''face'', 3), (''hair_back'', 4),
     (''arm_right'', 5), (''arm_left'', 6)]"

section \<open>Properties of the layer stack\<close>

subsection \<open>Ranks\<close>

lemma rankOf_unranked: "part_hierarchy p = None \<Longrightarrow> rankOf p = 999"
  by (simp add: rankOf_def)

lemma rankOf_ranked: "part_hierarchy q = Some r \<Longrightarrow> rankOf q = r \<and> r \<le> 14"
  by (auto simp add: rankOf_def part_hierarchy_def split: if_splits)

subsection \<open>The order of the stack\<close>

lemma ordered_parts_sorted: "sorted (map rankOf (ordered_parts layers))"
  by (simp add: ordered_parts_def)

lemma ordered_parts_stable:
  "filter (\<lambda>p. rankOf p = k) (ordered_parts layers) = filter (\<lambda>p. rankOf p = k) (map fst layers)"
  by (simp add: ordered_parts_def sort_key_stable)

lemma ordered_parts_mset: "mset (ordered_parts layers) = mset (map fst layers)"
  by (simp add: ordered_parts_def)

lemma map_filter_lookup:
  "set ps \<subseteq> fst ` set layers \<Longrightarrow>
   List.map_filter (\<lambda>p. map_option (Pair p) (map_of layers p)) ps
     = map (\<lambda>p. (p, the (map_of layers p))) ps"
proof (induction ps)
  case Nil
  show ?case by (simp add: List.map_filter_simps)
next
  case (Cons p ps)
  then have "p \<in> fst ` set layers" by simp
  then obtain v where "map_of layers p = Some v"
    by (metis domD dom_map_of_conv_image_fst)
  with Cons show ?case by (simp add: List.map_filter_simps)
qed

lemma create_psd_stack:
  assumes "create_psd psd_tools layers = Inr (Some stack)"
  shows "stack = map (\<lambda>p. (p, the (map_of layers p))) (ordered_parts layers)"
proof -
  have "set (ordered_parts layers) \<subseteq> fst ` set layers"
    by (simp add: ordered_parts_def)
  then show ?thesis
    using assms by (auto simp add: create_psd_def map_filter_lookup split: if_splits)
qed

lemma create_psd_names:
  assumes "create_psd psd_tools layers = Inr (Some stack)"
  shows "map fst stack = ordered_parts layers"
  by (simp add: create_psd_stack [OF assms] comp_def)

lemma create_psd_images:
  assumes "create_psd psd_tools layers = Inr (Some stack)"
  shows "map (Some \<circ> snd) stack = map (map_of layers) (ordered_parts layers)"
proof -
  have "\<forall>p \<in> set (ordered_parts layers). \<exists>v. map_of layers p = Some v"
  proof
    fix p
    assume "p \<in> set (ordered_parts layers)"
    then have "p \<in> fst ` set layers"
      by (simp add: ordered_parts_def)
    then show "\<exists>v. map_of layers p = Some v"
      by (metis domD dom_map_of_conv_image_fst)
  qed
  then show ?thesis
    by (auto simp add: create_psd_stack [OF assms])
qed

lemma sorted_precedes:
  assumes "sorted (map f ys)" "i < length ys" "j < length ys" "f (ys ! i) < f (ys ! j)"
  shows "i < j"
proof (rule ccontr)
  assume "\<not> i < j"
  then have "j \<le> i" by simp
  with assms(1,2) have "map f ys ! j \<le> map f ys ! i"
    by (simp add: sorted_iff_nth_mono del: sorted_map)
  with assms show False by simp
qed

text \<open>
  C1. The order in which \<open>_create_psd\<close> creates the layers, the \<open>ordered_parts\<close> of the
  source, holds every part of the layer dictionary once; a part of smaller rank comes
  before a part of larger rank; a name outside the hierarchy has rank 999, above every
  rank of the table; and the parts of one rank keep the order in which the dictionary
  lists them. Whenever \<open>_create_psd\<close> returns a stack, its layers are in this order,
  each with the image the dictionary has for its part.
\<close>

theorem create_psd_order:
  "mset (ordered_parts layers) = mset (map fst layers) \<and>
   (\<forall>i j. i < length layers \<and> j < length layers \<and>
      rankOf (ordered_parts layers ! i) < rankOf (ordered_parts layers ! j) \<longrightarrow> i < j) \<and>
   (\<forall>p q. part_hierarchy p = None \<and> q \<in> dom part_hierarchy \<longrightarrow>
      rankOf p = 999 \<and> rankOf q < rankOf p) \<and>
   (\<forall>k. filter (\<lambda>p. rankOf p = k) (ordered_parts layers) =
      filter (\<lambda>p. rankOf p = k) (map fst layers)) \<and>
   (\<forall>psd_tools stack. create_psd psd_tools layers = Inr (Some stack) \<longrightarrow>
      map fst stack = ordered_parts layers \<and>
      map (Some \<circ> snd) stack = map (map_of layers) (ordered_parts layers))"
proof -
  have a: "mset (ordered_parts layers) = mset (map fst layers)"
    by (rule ordered_parts_mset)
  have len: "length (ordered_parts layers) = length layers"
    by (simp add: ordered_parts_def)
  have b: "\<forall>i j. i < length layers \<and> j < length layers \<and>
           rankOf (ordered_parts layers ! i) < rankOf (ordered_parts layers ! j) \<longrightarrow> i < j"
  proof (intro allI impI)
    fix i j
    assume "i < length layers \<and> j < length layers \<and>
           rankOf (ordered_parts layers ! i) < rankOf (ordered_parts layers ! j)"
    then show "i < j"
      using sorted_precedes [of rankOf "ordered_parts layers" i j] ordered_parts_sorted [of layers]
      by (simp add: len)
  qed
  have c: "\<forall>p q. part_hierarchy p = None \<and> q \<in> dom part_hierarchy \<longrightarrow>
              rankOf p = 999 \<and> rankOf q < rankOf p"
    using rankOf_ranked rankOf_unranked by fastforce
  have d: "\<forall>k. filter (\<lambda>p. rankOf p = k) (ordered_parts layers) =
              filter (\<lambda>p. rankOf p = k) (map fst layers)"
    by (simp add: ordered_parts_stable)
  have e: "\<forall>psd_tools stack. create_psd psd_tools layers = Inr (Some stack) \<longrightarrow>
      map fst stack = ordered_parts layers \<and>
      map (Some \<circ> snd) stack = map (map_of layers) (ordered_parts layers)"
    using create_psd_names create_psd_images by (intro allI impI conjI)
  show ?thesis
    using a b c d e by (intro conjI)
qed

lemma six_layers_ordered:
  "ordered_parts six_layers =
     [''hair_back'', ''arm_right'', ''arm_left'', ''face'', ''eyebrows_left'', ''tail'']"
  by (simp add: ordered_parts_def six_layers_def rankOf_def part_hierarchy_def)

lemma six_layers_psd:
  "create_psd KeywordsRejected six_layers = Inl TypeError"
  "create_psd KeywordsAccepted six_layers =
     Inr (Some [(''hair_back'', 4), (''arm_right'', 5), (''arm_left'', 6), (''face'', 3),
                (''eyebrows_left'', 1), (''tail'', 2)])"
proof -
  have ne: "six_layers \<noteq> []"
    by (simp add: six_layers_def)
  show "create_psd KeywordsRejected six_layers = Inl TypeError"
    by (simp add: create_psd_def ne)
  have "List.map_filter (\<lambda>p. map_option (Pair p) (map_of six_layers p))
          [''hair_back'', ''arm_right'', ''arm_left'', ''face'', ''eyebrows_left'', ''tail'']
        = [(''hair_back'', 4), (''arm_right'', 5), (''arm_left'', 6), (''face'', 3),
           (''eyebrows_left'', 1), (''tail'', 2)]"
    by (simp add: List.map_filter_simps six_layers_def)
  then show "create_psd KeywordsAccepted six_layers =
     Inr (Some [(''hair_back'', 4), (''arm_right'', 5), (''arm_left'', 6), (''face'', 3),
                (''eyebrows_left'', 1), (''tail'', 2)])"
    by (simp add: create_psd_def ne six_layers_ordered)
qed

theorem create_psd_order_witness:
  "ordered_parts six_layers =
     [''hair_back'', ''arm_right'', ''arm_left'', ''face'', ''eyebrows_left'', ''tail''] \<and>
   map rankOf (ordered_parts six_layers) = [1, 3, 3, 4, 8, 999] \<and>
   part_hierarchy ''tail'' = None \<and> ''face'' \<in> dom part_hierarchy \<and>
   rankOf ''tail'' = 999 \<and> rankOf ''face'' < rankOf ''tail'' \<and>
   filter (\<lambda>p. rankOf p = 3) (map fst six_layers) = [''arm_right'', ''arm_left''] \<and>
   filter (\<lambda>p. rankOf p = 3) (ordered_parts six_layers) = [''arm_right'', ''arm_left''] \<and>
   create_psd KeywordsRejected six_layers = Inl TypeError \<and>
   create_psd KeywordsAccepted six_layers =
     Inr (Some [(''hair_back'', 4), (''arm_right'', 5), (''arm_left'', 6), (''face'', 3),
                (''eyebrows_left'', 1), (''tail'', 2)]) \<and>
   map fst [(''hair_back'', 4 :: nat), (''arm_right'', 5), (''arm_left'', 6), (''face'', 3),
            (''eyebrows_left'', 1), (''tail'', 2)] = ordered_parts six_layers"
proof -
  have r: "map rankOf
      [''hair_back'', ''arm_right'', ''arm_left'', ''face'', ''eyebrows_left'', ''tail'']
      = [1, 3, 3, 4, 8, 999]"
    by (simp add: rankOf_def part_hierarchy_def)
  have t: "part_hierarchy ''tail'' = None" "''face'' \<in> dom part_hierarchy"
    by (simp_all add: part_hierarchy_def)
  have f3: "filter (\<lambda>p. rankOf p = 3) (map fst six_layers) = [''arm_right'', ''arm_left'']"
    by (simp add: six_layers_def rankOf_def part_hierarchy_def)
  note ord = create_psd_order [of six_layers]
  have u: "rankOf ''tail'' = 999 \<and> rankOf ''face'' < rankOf ''tail''"
    using ord t by blast
  have g3: "filter (\<lambda>p. rankOf p = 3) (ordered_parts six_layers) = [''arm_right'', ''arm_left'']"
    using ord f3 by simp
  have n: "map fst [(''hair_back'', 4 :: nat), (''arm_right'', 5), (''arm_left'', 6),
            (''face'', 3), (''eyebrows_left'', 1), (''tail'', 2)] = ordered_parts six_layers"
    using ord six_layers_psd(2) by blast
  have r': "map rankOf (ordered_parts six_layers) = [1, 3, 3, 4, 8, 999]"
    by (simp only: six_layers_ordered r)
  show ?thesis
    by (intro conjI six_layers_ordered r' t u [THEN conjunct1] u [THEN conjunct2]
          f3 g3 six_layers_psd n)
qed

subsection \<open>Choosing among candidate masks\<close>

lemma sorted_reverse_set: "set (sorted_reverse key xs) = set xs"
  by (simp add: sorted_reverse_def)

lemma sorted_reverse_Nil_iff: "sorted_reverse key xs = [] \<longleftrightarrow> xs = []"
  using sorted_reverse_set [of key xs] by (metis set_empty)

lemma sorted_reverse_stable:
  "filter (\<lambda>y. key y = k) (sorted_reverse key xs) = filter (\<lambda>y. key y = k) xs"
proof -
  have "filter (\<lambda>y. key y = k) (sorted_reverse key xs)
          = rev (filter (\<lambda>y. key y = k) (sort_key key (rev xs)))"
    by (simp add: sorted_reverse_def rev_filter)
  also have "\<dots> = rev (filter (\<lambda>y. key y = k) (rev xs))"
    by (simp only: sort_key_stable)
  also have "\<dots> = filter (\<lambda>y. key y = k) xs"
    by (simp add: rev_filter)
  finally show ?thesis .
qed

lemma sorted_reverse_descending: "sorted (rev (map key (sorted_reverse key xs)))"
  by (simp add: sorted_reverse_def rev_map)

lemma sorted_reverse_head_max:
  assumes "sorted_reverse key xs = m # rest" "x \<in> set xs"
  shows "key x \<le> key m"
proof -
  have "sorted (rev (map key (m # rest)))"
    using sorted_reverse_descending [of key xs] assms(1) by simp
  then have "\<forall>y \<in> set rest. key y \<le> key m"
    by (auto simp add: sorted_append)
  moreover have "x \<in> set (m # rest)"
    using assms sorted_reverse_set [of key xs] by simp
  ultimately show ?thesis by auto
qed

lemma sorted_reverse_head_first:
  assumes "sorted_reverse key xs = m # rest"
  shows "\<exists>pre post. xs = pre @ m # post \<and> (\<forall>x \<in> set pre. key x < key m) \<and>
           (\<forall>x \<in> set post. key x \<le> key m)"
proof -
  have "filter (\<lambda>y. key y = key m) xs = m # filter (\<lambda>y. key y = key m) rest"
    using sorted_reverse_stable [of key "key m" xs] assms by simp
  then obtain pre post where xs: "xs = pre @ m # post"
    and pre: "\<forall>u \<in> set pre. key u \<noteq> key m"
    by (auto simp add: filter_eq_Cons_iff)
  have le: "\<And>x. x \<in> set xs \<Longrightarrow> key x \<le> key m"
    using assms by (rule sorted_reverse_head_max)
  have "\<forall>x \<in> set pre. key x < key m"
    using pre le xs by (auto simp add: order_less_le)
  moreover have "\<forall>x \<in> set post. key x \<le> key m"
    using le xs by auto
  ultimately show ?thesis using xs by blast
qed

lemma area_true_pixels: "area m = true_pixels m"
  by (induction m) (simp_all add: area_def true_pixels_def)

lemma apply_mask_length: "length (apply_mask img m) = min (length img) (length m)"
  by (simp add: apply_mask_def)

lemma apply_mask_row_length:
  assumes "y < length img" "y < length m"
  shows "length (apply_mask img m ! y) = min (length (img ! y)) (length (m ! y))"
  using assms by (simp add: apply_mask_def)

lemma apply_mask_pixel:
  assumes "y < length img" "y < length m" "x < length (img ! y)" "x < length (m ! y)"
  shows "apply_mask img m ! y ! x =
           (if m ! y ! x
            then (case img ! y ! x of (r, g, b, a) \<Rightarrow> (r, g, b, 255))
            else (0, 0, 0, 0))"
  using assms by (simp add: apply_mask_def split: prod.splits)

text \<open>
  C10. When a part has candidate masks, \<open>_segment_part\<close> builds the layer from a
  candidate with the largest number of True pixels: the candidates before it in
  generation order have strictly fewer and those after it have no more, so it need not
  be the first candidate. The layer, before the optional blur of the edges, has at each
  pixel that the chosen mask selects the colour of the image with alpha 255, and is
  transparent black elsewhere.
\<close>

theorem segment_part_selects_largest:
  assumes "candidate_masks sam cfg np_image part_name \<noteq> []"
  shows "\<exists>pre m post layer.
           candidate_masks sam cfg np_image part_name = pre @ m # post \<and>
           (\<forall>c \<in> set pre. true_pixels c < true_pixels m) \<and>
           (\<forall>c \<in> set post. true_pixels c \<le> true_pixels m) \<and>
           segment_part sam blur cfg np_image part_name =
             Some (if refine_edges cfg then blur layer else layer) \<and>
           length layer = min (length np_image) (length m) \<and>
           (\<forall>y. y < length np_image \<and> y < length m \<longrightarrow>
              length (layer ! y) = min (length (np_image ! y)) (length (m ! y))) \<and>
           (\<forall>y x. y < length np_image \<and> y < length m \<and>
              x < length (np_image ! y) \<and> x < length (m ! y) \<longrightarrow>
              layer ! y ! x =
                (if m ! y ! x
                 then (case np_image ! y ! x of (r, g, b, a) \<Rightarrow> (r, g, b, 255))
                 else (0, 0, 0, 0)))"
proof -
  let ?masks = "candidate_masks sam cfg np_image part_name"
  obtain m rest where s: "sorted_reverse area ?masks = m # rest"
    using assms sorted_reverse_Nil_iff [of area ?masks]
    by (cases "sorted_reverse area ?masks") auto
  obtain pre post where split: "?masks = pre @ m # post"
    and pre: "\<forall>c \<in> set pre. area c < area m"
    and post: "\<forall>c \<in> set post. area c \<le> area m"
    using sorted_reverse_head_first [OF s] by blast
  define layer where "layer = apply_mask np_image m"
  have seg: "segment_part sam blur cfg np_image part_name =
             Some (if refine_edges cfg then blur layer else layer)"
    by (simp add: segment_part_def s layer_def)
  have l1: "length layer = min (length np_image) (length m)"
    by (simp only: layer_def apply_mask_length)
  have l2: "\<forall>y. y < length np_image \<and> y < length m \<longrightarrow>
              length (layer ! y) = min (length (np_image ! y)) (length (m ! y))"
    by (simp add: layer_def apply_mask_row_length)
  have px: "\<forall>y x. y < length np_image \<and> y < length m \<and>
              x < length (np_image ! y) \<and> x < length (m ! y) \<longrightarrow>
              layer ! y ! x =
                (if m ! y ! x
                 then (case np_image ! y ! x of (r, g, b, a) \<Rightarrow> (r, g, b, 255))
                 else (0, 0, 0, 0))"
    unfolding layer_def by (intro allI impI apply_mask_pixel) simp_all
  have pre': "\<forall>c \<in> set pre. true_pixels c < true_pixels m"
    using pre by (simp only: area_true_pixels)
  have post': "\<forall>c \<in> set post. true_pixels c \<le> true_pixels m"
    using post by (simp only: area_true_pixels)
  show ?thesis
    by (intro exI [where x = pre] exI [where x = m] exI [where x = post]
          exI [where x = layer] conjI split pre' post' seg l1 l2 px)
qed

lemma sam_two_candidates:
  "candidate_masks sam_two cfg_sam img2 ''face'' = [[[False, True]], [[True, True]]]"
  by (simp add: candidate_masks_def sam_two_def cfg_sam_def)

lemma sam_two_segment:
  "segment_part sam_two id cfg_sam img2 ''face'' = Some (apply_mask img2 [[True, True]])"
proof -
  have r: "\<not> refine_edges cfg_sam"
    by (simp add: cfg_sam_def)
  have a: "area [[False, True]] = 1" "area [[True, True]] = 2"
    by (simp_all add: area_def)
  show ?thesis
    by (simp add: segment_part_def sam_two_candidates sorted_reverse_def a r)
qed

lemma sam_two_layers:
  "apply_mask img2 [[True, True]] = [[(10, 20, 30, 255), (40, 50, 60, 255)]]"
  "apply_mask img2 [[False, True]] = [[(0, 0, 0, 0), (40, 50, 60, 255)]]"
  by (simp_all add: apply_mask_def img2_def)

lemma two_candidates_split:
  assumes "[a, b] = pre @ m # post"
  shows "pre = [] \<and> m = a \<and> post = [b] \<or> pre = [a] \<and> m = b \<and> post = []"
  using assms by (cases pre; cases "tl pre") (auto simp add: Cons_eq_append_conv)

theorem segment_part_selects_largest_witness:
  "candidate_masks sam_two cfg_sam img2 ''face'' = [[[False, True]], [[True, True]]] \<and>
   candidate_masks sam_two cfg_sam img2 ''face'' \<noteq> [] \<and>
   true_pixels [[False, True]] = 1 \<and> true_pixels [[True, True]] = 2 \<and>
   (\<exists>pre m post layer.
      [[[False, True]], [[True, True]]] = pre @ m # post \<and>
      pre = [[[False, True]]] \<and> m = [[True, True]] \<and> post = [] \<and>
      segment_part sam_two id cfg_sam img2 ''face'' = Some layer \<and>
      layer ! 0 ! 0 = (10, 20, 30, 255) \<and> layer ! 0 ! 1 = (40, 50, 60, 255)) \<and>
   segment_part sam_two id cfg_sam img2 ''face''
     = Some [[(10, 20, 30, 255), (40, 50, 60, 255)]] \<and>
   apply_mask img2 [[False, True]] = [[(0, 0, 0, 0), (40, 50, 60, 255)]]"
proof -
  have ne: "candidate_masks sam_two cfg_sam img2 ''face'' \<noteq> []"
    by (simp add: sam_two_candidates)
  have r: "\<not> refine_edges cfg_sam"
    by (simp add: cfg_sam_def)
  have t: "true_pixels [[False, True]] = 1" "true_pixels [[True, True]] = 2"
    by (simp_all add: true_pixels_def)
  obtain pre m post layer where
    split: "candidate_masks sam_two cfg_sam img2 ''face'' = pre @ m # post"
    and post: "\<forall>c \<in> set post. true_pixels c \<le> true_pixels m"
    and seg: "segment_part sam_two id cfg_sam img2 ''face'' = Some layer"
    and px: "\<forall>y x. y < length img2 \<and> y < length m \<and>
              x < length (img2 ! y) \<and> x < length (m ! y) \<longrightarrow>
              layer ! y ! x =
                (if m ! y ! x
                 then (case img2 ! y ! x of (r, g, b, a) \<Rightarrow> (r, g, b, 255))
                 else (0, 0, 0, 0))"
    using segment_part_selects_largest [OF ne, of id] r by (elim exE conjE) simp
  have split': "[[[False, True]], [[True, True]]] = pre @ m # post"
    using split by (simp only: sam_two_candidates)
  have m: "pre = [[[False, True]]] \<and> m = [[True, True]] \<and> post = []"
    using two_candidates_split [OF split'] post t by auto
  have p0: "layer ! 0 ! 0 = (10, 20, 30, 255)"
    using px [rule_format, of 0 0] m by (simp add: img2_def)
  have p1: "layer ! 0 ! 1 = (40, 50, 60, 255)"
    using px [rule_format, of 0 1] m by (simp add: img2_def)
  have ex: "\<exists>pre m post layer.
      [[[False, True]], [[True, True]]] = pre @ m # post \<and>
      pre = [[[False, True]]] \<and> m = [[True, True]] \<and> post = [] \<and>
      segment_part sam_two id cfg_sam img2 ''face'' = Some layer \<and>
      layer ! 0 ! 0 = (10, 20, 30, 255) \<and> layer ! 0 ! 1 = (40, 50, 60, 255)"
    using split' m seg p0 p1
    by (intro exI [where x = pre] exI [where x = m] exI [where x = post]
          exI [where x = layer] conjI) simp_all
  have full: "segment_part sam_two id cfg_sam img2 ''face''
     = Some [[(10, 20, 30, 255), (40, 50, 60, 255)]]"
    by (simp only: sam_two_segment sam_two_layers)
  show ?thesis
    by (intro conjI sam_two_candidates ne t ex full sam_two_layers(2))
qed

subsection \<open>Which requested parts reach the stack\<close>

lemma segment_part_None_iff:
  "segment_part sam blur cfg np_image part_name = None \<longleftrightarrow>
     candidate_masks sam cfg np_image part_name = []"
proof (cases "sorted_reverse area (candidate_masks sam cfg np_image part_name)")
  case Nil
  then show ?thesis
    using sorted_reverse_Nil_iff [of area "candidate_masks sam cfg np_image part_name"]
    by (simp add: segment_part_def)
next
  case (Cons m rest)
  then show ?thesis
    using sorted_reverse_Nil_iff [of area "candidate_masks sam cfg np_image part_name"]
    by (simp add: segment_part_def Let_def)
qed

lemma collect_keys_aux:
  "fst ` set (foldl (\<lambda>layers part_name.
        case segment_part sam blur cfg img part_name of
          None \<Rightarrow> layers
        | Some segmented_part \<Rightarrow> AList.update part_name segmented_part layers) acc ps)
   = fst ` set acc \<union> {p \<in> set ps. segment_part sam blur cfg img p \<noteq> None}"
proof (induction ps arbitrary: acc)
  case Nil
  show ?case by simp
next
  case (Cons p ps)
  show ?case
    by (cases "segment_part sam blur cfg img p") (auto simp add: Cons.IH dom_update)
qed

lemma collect_layers_keys:
  "fst ` set (collect_layers sam blur cfg img) =
     {p \<in> set (parts cfg). candidate_masks sam cfg img p \<noteq> []}"
  by (simp add: collect_layers_def collect_keys_aux segment_part_None_iff)

lemma collect_map_of_aux:
  "map_of (foldl (\<lambda>layers part_name.
        case segment_part sam blur cfg img part_name of
          None \<Rightarrow> layers
        | Some segmented_part \<Rightarrow> AList.update part_name segmented_part layers) acc ps) p
   = (if p \<in> set ps \<and> segment_part sam blur cfg img p \<noteq> None
      then segment_part sam blur cfg img p else map_of acc p)"
proof (induction ps arbitrary: acc)
  case Nil
  show ?case by simp
next
  case (Cons q ps)
  show ?case
    by (cases "segment_part sam blur cfg img q") (auto simp add: Cons.IH update_conv')
qed

lemma collect_layers_map_of:
  "map_of (collect_layers sam blur cfg img) p =
     (if p \<in> set (parts cfg) then segment_part sam blur cfg img p else None)"
  by (auto simp add: collect_layers_def collect_map_of_aux)

lemma apply_mask_transparent:
  assumes "area m = 0" "row \<in> set (apply_mask img m)" "px \<in> set row"
  shows "px = (0, 0, 0, 0)"
proof -
  have f: "\<forall>mrow \<in> set m. \<forall>b \<in> set mrow. \<not> b"
    using assms(1) by (auto simp add: area_def filter_empty_conv)
  from assms(2) obtain irow mrow where "(irow, mrow) \<in> set (zip img m)"
    and row: "row = map2 (\<lambda>(r, g, b, a) sel. if sel then (r, g, b, 255) else (0, 0, 0, 0)) irow mrow"
    by (auto simp add: apply_mask_def)
  then have "mrow \<in> set m" by (auto dest: set_zip_rightD)
  with f have "\<forall>b \<in> set mrow. \<not> b" by blast
  with assms(3) row show ?thesis
    by (auto dest: set_zip_rightD)
qed

text \<open>Running \<open>separate\<close> on a one-pixel image with the parts \<open>hair_back\<close> and \<open>body\<close>.\<close>

lemma u2net_fallback:
  "fallback_masks img1 ''hair_back'' = [[[False]]]" "fallback_masks img1 ''body'' = []"
proof -
  have h: "sublist ''hair'' ''hair_back''" "\<not> sublist ''eye'' ''hair_back''"
    "\<not> sublist ''mouth'' ''hair_back''"
    by (simp_all add: sublist_code)
  have b: "\<not> sublist ''hair'' ''body''" "\<not> sublist ''eye'' ''body''"
    "\<not> sublist ''mouth'' ''body''"
    by (simp_all add: sublist_code)
  show "fallback_masks img1 ''hair_back'' = [[[False]]]"
    by (simp add: fallback_masks_def h img1_def img_height_def img_width_def rect_mask_def)
  show "fallback_masks img1 ''body'' = []"
    by (simp add: fallback_masks_def b Let_def)
qed

lemma u2net_candidates:
  "candidate_masks sam_none cfg_u2net img1 ''hair_back'' = [[[False]]]"
  "candidate_masks sam_none cfg_u2net img1 ''body'' = []"
  by (simp_all add: candidate_masks_def cfg_u2net_def u2net_fallback)

lemma u2net_segment:
  "segment_part sam_none id cfg_u2net img1 ''hair_back'' = Some [[(0, 0, 0, 0)]]"
  "segment_part sam_none id cfg_u2net img1 ''body'' = None"
proof -
  have a: "apply_mask img1 [[False]] = [[(0, 0, 0, 0)]]"
    by (simp add: apply_mask_def img1_def)
  have r: "\<not> refine_edges cfg_u2net"
    by (simp add: cfg_u2net_def)
  show "segment_part sam_none id cfg_u2net img1 ''hair_back'' = Some [[(0, 0, 0, 0)]]"
    by (simp add: segment_part_def u2net_candidates sorted_reverse_def a r)
  show "segment_part sam_none id cfg_u2net img1 ''body'' = None"
    by (simp add: segment_part_def u2net_candidates sorted_reverse_def)
qed

lemma u2net_separate:
  "separate sam_none id psd_tools cfg_u2net img1 =
     Inr ([(''hair_back'', [[(0, 0, 0, 0)]])], None)"
proof -
  have p: "parts cfg_u2net = [''hair_back'', ''body'']"
    by (simp add: cfg_u2net_def)
  have c: "collect_layers sam_none id cfg_u2net img1 = [(''hair_back'', [[(0, 0, 0, 0)]])]"
    by (simp add: collect_layers_def p u2net_segment)
  have f: "\<not> fill_background cfg_u2net" "\<not> export_psd cfg_u2net"
    by (simp_all add: cfg_u2net_def)
  show ?thesis
    by (simp add: separate_def c f Let_def)
qed

lemma separate_result:
  assumes "separate sam blur psd_tools cfg img = Inr (layers, psd)"
  shows "layers = (if fill_background cfg
           then AList.update ''background'' (new_image img (background_color cfg))
                  (collect_layers sam blur cfg img)
           else collect_layers sam blur cfg img)"
proof (cases "export_psd cfg")
  case True
  show ?thesis
  proof (cases "create_psd psd_tools (if fill_background cfg
           then AList.update ''background'' (new_image img (background_color cfg))
                  (collect_layers sam blur cfg img)
           else collect_layers sam blur cfg img)")
    case (Inl e)
    with True assms show ?thesis by (simp add: separate_def Let_def)
  next
    case (Inr r)
    with True assms show ?thesis by (auto simp add: separate_def Let_def)
  qed
next
  case False
  with assms show ?thesis by (simp add: separate_def Let_def)
qed

lemma segment_part_transparent:
  assumes "segment_part sam blur cfg img p = Some layer" "\<not> refine_edges cfg"
    and "\<forall>m \<in> set (candidate_masks sam cfg img p). true_pixels m = 0"
    and "row \<in> set layer" "px \<in> set row"
  shows "px = (0, 0, 0, 0)"
proof -
  let ?masks = "candidate_masks sam cfg img p"
  obtain m rest where s: "sorted_reverse area ?masks = m # rest"
    using assms(1) by (cases "sorted_reverse area ?masks") (auto simp add: segment_part_def)
  have "m \<in> set (sorted_reverse area ?masks)"
    by (simp add: s)
  then have "m \<in> set ?masks"
    by (simp only: sorted_reverse_set)
  then have z: "area m = 0"
    using assms(3) by (simp add: area_true_pixels)
  have "layer = apply_mask img m"
    using assms(1,2) by (simp add: segment_part_def s)
  with assms(4) have "row \<in> set (apply_mask img m)"
    by simp
  with z show ?thesis
    using assms(5) by (rule apply_mask_transparent)
qed

text \<open>
  C9, as stated, fails: the part \<open>body\<close> is requested, segmentation gives it no mask
  and its name has no fallback region, and \<open>separate\<close> leaves it out of the layer
  dictionary, from which the layer files and the stack are made. No PSD export is
  asked for, so the outcome is the same with every \<open>psd_tools\<close> library.
\<close>

theorem separate_drops_part_counterexample:
  "''body'' \<in> set (parts cfg_u2net) \<and>
   candidate_masks sam_none cfg_u2net img1 ''body'' = [] \<and>
   (\<forall>psd_tools. separate sam_none id psd_tools cfg_u2net img1 =
      Inr ([(''hair_back'', [[(0, 0, 0, 0)]])], None)) \<and>
   ''body'' \<notin> fst ` set [(''hair_back'', [[(0, 0, 0, 0)]] :: image)]"
proof -
  have p: "''body'' \<in> set (parts cfg_u2net)"
    by (simp add: cfg_u2net_def)
  show ?thesis
    using p by (simp add: u2net_separate u2net_candidates)
qed

text \<open>
  C9, amended. When \<open>separate\<close> returns, a requested part is in the layer dictionary
  exactly when it has at least one candidate mask, from the model or from the fallback
  for its name, or when it is the part \<open>background\<close> and the background is filled in. A
  part without candidate mask is left out, unless it is this filled-in background. The
  layer of the filled-in background is the background image; the layer of every other
  part is the result of \<open>_segment_part\<close>, whatever the area of the chosen mask: when no
  candidate of the part has a True pixel and the edges are not refined, the part still
  has its layer, and every pixel of it is transparent black.
\<close>

theorem separate_emits_iff_candidate:
  assumes "separate sam blur psd_tools cfg img = Inr (layers, psd)"
    and "p \<in> set (parts cfg)"
  shows "(p \<in> fst ` set layers \<longleftrightarrow>
            candidate_masks sam cfg img p \<noteq> [] \<or> p = ''background'' \<and> fill_background cfg) \<and>
         map_of layers p =
           (if p = ''background'' \<and> fill_background cfg
            then Some (new_image img (background_color cfg))
            else segment_part sam blur cfg img p) \<and>
         (\<forall>layer. map_of layers p = Some layer \<and>
            \<not> (p = ''background'' \<and> fill_background cfg) \<and> \<not> refine_edges cfg \<and>
            (\<forall>m \<in> set (candidate_masks sam cfg img p). true_pixels m = 0) \<longrightarrow>
            (\<forall>row \<in> set layer. \<forall>px \<in> set row. px = (0, 0, 0, 0)))"
proof -
  define base where "base = collect_layers sam blur cfg img"
  have layers: "layers = (if fill_background cfg
      then AList.update ''background'' (new_image img (background_color cfg)) base else base)"
    using separate_result [OF assms(1)] by (simp add: base_def)
  have kb: "p \<in> fst ` set base \<longleftrightarrow> candidate_masks sam cfg img p \<noteq> []"
    using assms(2) by (simp add: base_def collect_layers_keys)
  have vb: "map_of base p = segment_part sam blur cfg img p"
    using assms(2) by (simp add: base_def collect_layers_map_of)
  have c1: "p \<in> fst ` set layers \<longleftrightarrow>
            candidate_masks sam cfg img p \<noteq> [] \<or> p = ''background'' \<and> fill_background cfg"
    using kb by (auto simp add: layers dom_update)
  have c2: "map_of layers p =
           (if p = ''background'' \<and> fill_background cfg
            then Some (new_image img (background_color cfg))
            else segment_part sam blur cfg img p)"
    using vb by (auto simp add: layers update_conv')
  have c3: "\<forall>layer. map_of layers p = Some layer \<and>
            \<not> (p = ''background'' \<and> fill_background cfg) \<and> \<not> refine_edges cfg \<and>
            (\<forall>m \<in> set (candidate_masks sam cfg img p). true_pixels m = 0) \<longrightarrow>
            (\<forall>row \<in> set layer. \<forall>px \<in> set row. px = (0, 0, 0, 0))"
  proof (intro allI impI ballI)
    fix layer row px
    assume h: "map_of layers p = Some layer \<and>
            \<not> (p = ''background'' \<and> fill_background cfg) \<and> \<not> refine_edges cfg \<and>
            (\<forall>m \<in> set (candidate_masks sam cfg img p). true_pixels m = 0)"
      and row: "row \<in> set layer" and px: "px \<in> set row"
    from h have seg: "segment_part sam blur cfg img p = Some layer"
      using c2 by auto
    from h have r: "\<not> refine_edges cfg"
      and z: "\<forall>m \<in> set (candidate_masks sam cfg img p). true_pixels m = 0"
      by simp_all
    show "px = (0, 0, 0, 0)"
      using seg r z row px by (rule segment_part_transparent)
  qed
  show ?thesis
    using c1 c2 c3 by (intro conjI)
qed

theorem separate_emits_iff_candidate_witness:
  "separate sam_none id KeywordsRejected cfg_u2net img1 =
     Inr ([(''hair_back'', [[(0, 0, 0, 0)]])], None) \<and>
   ''hair_back'' \<in> set (parts cfg_u2net) \<and>
   candidate_masks sam_none cfg_u2net img1 ''hair_back'' = [[[False]]] \<and>
   true_pixels [[False]] = 0 \<and>
   ''hair_back'' \<in> fst ` set [(''hair_back'', [[(0, 0, 0, 0)]] :: image)] \<and>
   map_of [(''hair_back'', [[(0, 0, 0, 0)]] :: image)] ''hair_back'' = Some [[(0, 0, 0, 0)]] \<and>
   segment_part sam_none id cfg_u2net img1 ''hair_back'' = Some [[(0, 0, 0, 0)]]"
proof -
  have p: "''hair_back'' \<in> set (parts cfg_u2net)"
    by (simp add: cfg_u2net_def)
  have a: "true_pixels [[False]] = 0"
    by (simp add: true_pixels_def)
  have n: "\<not> (''hair_back'' = ''background'' \<and> fill_background cfg_u2net)"
    by simp
  note emits = separate_emits_iff_candidate [OF u2net_separate [of KeywordsRejected] p]
  have s: "segment_part sam_none id cfg_u2net img1 ''hair_back'' = Some [[(0, 0, 0, 0)]]"
    using emits n by simp
  show ?thesis
    using s p a by (simp add: u2net_separate u2net_candidates)
qed

section \<open>Properties of the blink curve\<close>

lemma blink_cycle_eq:
  "blink_cycle s = s\<lparr>current_time := current_time s + 0.26,
                      keyframes := keyframes s @ cycle_keyframes (current_time s)\<rparr>"
  by (simp add: blink_cycle_def append_kf_def advance_def cycle_keyframes_def Let_def)

lemma blink_loop_step:
  "current_time s < 10 \<Longrightarrow>
   blink_loop rb iv s = blink_loop rb iv (blink_wait rb iv (blink_cycle s))"
  by (subst blink_loop.simps) (simp add: blink_total_time_def)

lemma blink_loop_stop:
  "\<not> current_time s < 10 \<Longrightarrow> blink_loop rb iv s = Some s"
  by (subst blink_loop.simps) (simp add: blink_total_time_def)

lemma blink_wait_fixed:
  "blink_wait False iv s = s\<lparr>current_time := current_time s + iv\<rparr>"
  by (simp add: blink_wait_def advance_def)

lemma blink_wait_random:
  "blink_wait True iv s =
     s\<lparr>current_time := current_time s + (iv * 0.7 + (iv * 1.3 - iv * 0.7) * shd (rng_state s)),
       rng_state := stl (rng_state s)\<rparr>"
  by (simp add: blink_wait_def advance_def random_uniform_def)

lemma blink_wait_keyframes: "keyframes (blink_wait rb iv s) = keyframes s"
  by (cases rb) (simp_all add: blink_wait_fixed blink_wait_random)

lemma blink_loop_periodic:
  "blink_loop False 4 \<lparr>current_time = 0, keyframes = [], rng_state = g\<rparr>
     = Some \<lparr>current_time = 12.78, keyframes = periodic_blink, rng_state = g\<rparr>"
  by (simp add: blink_loop_step blink_loop_stop blink_cycle_eq blink_wait_fixed periodic_blink_def)

lemma create_periodic:
  "create_eye_blink_curve speed False g =
     (if speed = 0 then Some (Inl ZeroDivisionError) else Some (Inr (periodic_blink, g)))"
  by (simp add: create_eye_blink_curve_def blink_loop_periodic)

lemma length_cycle_keyframes: "length (cycle_keyframes t) = 12"
  by (simp add: cycle_keyframes_def)

lemma cycles_of_Nil: "cycles_of [] = []"
  by (simp add: cycles_of.simps)

lemma cycles_of_cycle: "cycles_of (cycle_keyframes t @ kfs) = cycle_keyframes t # cycles_of kfs"
  by (subst cycles_of.simps) (simp add: length_cycle_keyframes)

lemma cycles_of_starts:
  "cycles_of (concat (map cycle_keyframes starts)) = map cycle_keyframes starts"
  by (induction starts) (simp_all add: cycles_of_Nil cycles_of_cycle)

lemma periodic_blink_starts: "periodic_blink = concat (map cycle_keyframes [0, 4.26, 8.52])"
  by (simp add: periodic_blink_def)

lemma cycles_of_periodic:
  "cycles_of periodic_blink = [cycle_keyframes 0, cycle_keyframes 4.26, cycle_keyframes 8.52]"
  unfolding periodic_blink_starts cycles_of_starts by simp

lemma cycle_values: "map kf_value (cycle_keyframes t) = blink_values"
  by (simp add: cycle_keyframes_def blink_values_def)

lemma cycle_steps:
  "step_durations (cycle_keyframes t) =
     [0.02, 0.02, 0.02, 0.02, 0.02, 0.06, 0.02, 0.02, 0.02, 0.02, 0.02]"
  by (simp add: cycle_keyframes_def step_durations_def)

lemma cycle_length: "cycle_duration (cycle_keyframes t) = 0.26"
  by (simp add: cycle_keyframes_def cycle_duration_def)



lemma blink_wait_time:
  assumes "0 \<le> iv" "0 \<le> shd (rng_state s)"
  shows "current_time s \<le> current_time (blink_wait rb iv s)"
proof (cases rb)
  case True
  have "0 \<le> iv * 0.7 + (iv * 1.3 - iv * 0.7) * shd (rng_state s)"
    using assms by (simp add: algebra_simps)
  then show ?thesis using True by (simp add: blink_wait_random)
next
  case False
  then show ?thesis using assms by (simp add: blink_wait_fixed)
qed

lemma blink_wait_rng:
  "rng_state (blink_wait rb iv s) = (if rb then stl (rng_state s) else rng_state s)"
  by (simp add: blink_wait_fixed blink_wait_random)

lemma blink_loop_terminates:
  assumes "0 \<le> iv"
  shows "(\<forall>x \<in> sset (rng_state s). 0 \<le> x) \<Longrightarrow> 10 - current_time s \<le> real n * 0.26 \<Longrightarrow>
         \<exists>r. blink_loop rb iv s = Some r"
proof (induction n arbitrary: s)
  case 0
  then have "\<not> current_time s < 10" by simp
  then show ?case by (simp add: blink_loop_stop)
next
  case (Suc n)
  show ?case
  proof (cases "current_time s < 10")
    case False
    then show ?thesis by (simp add: blink_loop_stop)
  next
    case True
    let ?s' = "blink_wait rb iv (blink_cycle s)"
    have shd0: "0 \<le> shd (rng_state (blink_cycle s))"
      using Suc.prems(1) by (simp add: blink_cycle_eq shd_sset)
    have t': "current_time s + 0.26 \<le> current_time ?s'"
      using blink_wait_time [OF assms shd0, of rb] by (simp add: blink_cycle_eq)
    have draws: "\<forall>x \<in> sset (rng_state ?s'). 0 \<le> x"
      using Suc.prems(1) by (auto simp add: blink_wait_rng blink_cycle_eq dest: stl_sset)
    have "10 - current_time ?s' \<le> real n * 0.26"
      using t' Suc.prems(2) by (simp add: algebra_simps)
    then obtain r where "blink_loop rb iv ?s' = Some r"
      using Suc.IH [OF draws] by blast
    then show ?thesis
      using True by (simp add: blink_loop_step)
  qed
qed

lemma create_blink_total:
  assumes "speed \<noteq> 0" "\<forall>x \<in> sset g. 0 \<le> x"
  shows "\<exists>kfs g'. create_eye_blink_curve speed rb g = Some (Inr (kfs, g'))"
proof -
  let ?iv = "if rb then fst (random_uniform 2.0 6.0 g) else 4.0"
  let ?g = "if rb then snd (random_uniform 2.0 6.0 g) else g"
  have "0 \<le> shd g" using assms(2) by (simp add: shd_sset)
  then have iv: "0 \<le> ?iv" by (simp add: random_uniform_def)
  have draws: "\<forall>x \<in> sset (rng_state \<lparr>current_time = 0, keyframes = [], rng_state = ?g\<rparr>). 0 \<le> x"
    using assms(2) by (auto simp add: random_uniform_def dest: stl_sset)
  have "10 - current_time \<lparr>current_time = 0, keyframes = [], rng_state = ?g\<rparr> \<le> real 39 * 0.26"
    by simp
  then obtain r where "blink_loop rb ?iv \<lparr>current_time = 0, keyframes = [], rng_state = ?g\<rparr> = Some r"
    using blink_loop_terminates [OF iv draws] by blast
  then show ?thesis
    using assms(1) by (cases rb) (simp_all add: create_eye_blink_curve_def random_uniform_def)
qed


lemma concat_cycles_of_starts:
  "concat (cycles_of (concat (map cycle_keyframes starts))) = concat (map cycle_keyframes starts)"
  by (simp only: cycles_of_starts)

text \<open>
  C2. With \<open>random_blink = False\<close> and a speed other than 0 (for which the source
  divides by zero before any keyframe), the curve consists of full cycles only, and the
  values of every cycle are 1.0, 0.9, 0.7, 0.5, 0.2, 0.0, 0.0, 0.2, 0.5, 0.7, 0.9, 1.0:
  a cycle starts and ends at 1 and is 0 at its two middle keyframes.
\<close>

theorem periodic_blink_cycle_values:
  assumes "speed \<noteq> 0"
  shows "\<exists>kfs. create_eye_blink_curve speed False g = Some (Inr (kfs, g)) \<and>
           concat (cycles_of kfs) = kfs \<and>
           map (map kf_value) (cycles_of kfs) = [blink_values, blink_values, blink_values] \<and>
           hd blink_values = 1 \<and> last blink_values = 1 \<and>
           blink_values ! 5 = 0 \<and> blink_values ! 6 = 0"
proof -
  have a: "create_eye_blink_curve speed False g = Some (Inr (periodic_blink, g))"
    using assms by (simp add: create_periodic)
  have b: "concat (cycles_of periodic_blink) = periodic_blink"
    unfolding periodic_blink_starts by (rule concat_cycles_of_starts)
  have c: "map (map kf_value) (cycles_of periodic_blink)
             = [blink_values, blink_values, blink_values]"
    by (simp add: cycles_of_periodic cycle_values)
  have d: "hd blink_values = 1" "last blink_values = 1"
    "blink_values ! 5 = 0" "blink_values ! 6 = 0"
    by (simp_all add: blink_values_def)
  show ?thesis
    by (intro exI [where x = periodic_blink] conjI a b c d)
qed

theorem periodic_blink_cycle_values_witness:
  "(2 :: real) \<noteq> 0 \<and>
   (\<exists>kfs. create_eye_blink_curve 2 False rng_half = Some (Inr (kfs, rng_half)) \<and>
      map (map kf_value) (cycles_of kfs) = [blink_values, blink_values, blink_values])"
proof -
  have h: "(2 :: real) \<noteq> 0" by simp
  obtain kfs where "create_eye_blink_curve 2 False rng_half = Some (Inr (kfs, rng_half))"
    "map (map kf_value) (cycles_of kfs) = [blink_values, blink_values, blink_values]"
    using periodic_blink_cycle_values [OF h, of rng_half] by (elim exE conjE)
  with h show ?thesis
    by (intro conjI exI [where x = kfs])
qed

text \<open>
  C3, at speed 0.5. The closing and the opening phase have five steps of 0.02 s each
  and the closed state lasts 0.06 s, so a cycle lasts 0.26 s; the speed has no effect
  on it, although the source computes \<open>blink_duration = 0.3 / speed\<close>, here 0.6 s,
  which is more than 0.1 s away from 0.26 s.
\<close>

theorem blink_cycle_ignores_speed:
  "create_eye_blink_curve (1 / 2) False g = Some (Inr (periodic_blink, g)) \<and>
   map step_durations (cycles_of periodic_blink) =
     replicate 3 [0.02, 0.02, 0.02, 0.02, 0.02, 0.06, 0.02, 0.02, 0.02, 0.02, 0.02] \<and>
   map cycle_duration (cycles_of periodic_blink) = [0.26, 0.26, 0.26] \<and>
   blink_duration (1 / 2) = 0.6 \<and>
   0.1 < \<bar>blink_duration (1 / 2) - 0.26\<bar>"
proof -
  have a: "create_eye_blink_curve (1 / 2) False g = Some (Inr (periodic_blink, g))"
    by (simp add: create_periodic)
  have b: "map step_durations (cycles_of periodic_blink) =
     replicate 3 [0.02, 0.02, 0.02, 0.02, 0.02, 0.06, 0.02, 0.02, 0.02, 0.02, 0.02]"
    by (simp add: cycles_of_periodic cycle_steps numeral_3_eq_3)
  have c: "map cycle_duration (cycles_of periodic_blink) = [0.26, 0.26, 0.26]"
    by (simp add: cycles_of_periodic cycle_length)
  have d: "blink_duration (1 / 2) = 0.6" "0.1 < \<bar>blink_duration (1 / 2) - 0.26\<bar>"
    by (simp_all add: blink_duration_def)
  show ?thesis
    by (intro conjI a b c d)
qed

text \<open>The run with \<open>random_blink = True\<close> on the draws 0, 2/3, 2/3, ...\<close>

lemma rng_a_run:
  "create_eye_blink_curve 1 True rng_a =
     Some (Inr (concat (map cycle_keyframes [0, 2.46, 4.92, 7.38, 9.84]), sconst (2 / 3)))"
  by (simp add: create_eye_blink_curve_def rng_a_def random_uniform_def
      blink_loop_step blink_loop_stop blink_cycle_eq blink_wait_random)

lemma rng_a_second_run:
  "create_eye_blink_curve 1 True (sconst (2 / 3)) =
     Some (Inr (concat (map cycle_keyframes [0, 809 / 150]), sconst (2 / 3)))"
  by (simp add: create_eye_blink_curve_def random_uniform_def
      blink_loop_step blink_loop_stop blink_cycle_eq blink_wait_random)

text \<open>
  C4, as stated, fails: with speed 1.0 and \<open>random_blink = False\<close> the curve has three
  full cycles, not two; and with \<open>random_blink = True\<close> and the draws 0, 2/3, 2/3, ...
  the last keyframe is at 10.10 s, after the horizon of 10 s.
\<close>

theorem blink_horizon_counterexample:
  "(\<exists>kfs g'. create_eye_blink_curve 1 False rng_half = Some (Inr (kfs, g')) \<and>
      concat (cycles_of kfs) = kfs \<and> length (cycles_of kfs) = 3) \<and>
   (\<exists>kfs g'. create_eye_blink_curve 1 True rng_a = Some (Inr (kfs, g')) \<and>
      kf_time (last kfs) = 10.10 \<and> blink_total_time < kf_time (last kfs))"
proof (intro conjI)
  have a: "create_eye_blink_curve 1 False rng_half = Some (Inr (periodic_blink, rng_half))"
    by (simp add: create_periodic)
  have b: "concat (cycles_of periodic_blink) = periodic_blink"
    unfolding periodic_blink_starts by (rule concat_cycles_of_starts)
  have c: "length (cycles_of periodic_blink) = 3"
    by (simp add: cycles_of_periodic)
  show "\<exists>kfs g'. create_eye_blink_curve 1 False rng_half = Some (Inr (kfs, g')) \<and>
      concat (cycles_of kfs) = kfs \<and> length (cycles_of kfs) = 3"
    by (intro exI [where x = periodic_blink] exI [where x = rng_half] conjI a b c)
next
  let ?kfs = "concat (map cycle_keyframes [0, 2.46, 4.92, 7.38, 9.84])"
  have d: "kf_time (last ?kfs) = 10.10"
    by (simp add: cycle_keyframes_def)
  have e: "blink_total_time < kf_time (last ?kfs)"
    by (simp add: cycle_keyframes_def blink_total_time_def)
  show "\<exists>kfs g'. create_eye_blink_curve 1 True rng_a = Some (Inr (kfs, g')) \<and>
      kf_time (last kfs) = 10.10 \<and> blink_total_time < kf_time (last kfs)"
    by (intro exI [where x = ?kfs] exI [where x = "sconst (2 / 3)"] conjI rng_a_run d e)
qed

lemma cycle_keyframes_hd: "kf_time (hd (cycle_keyframes t)) = t"
  by (simp add: cycle_keyframes_def)

lemma periodic_gaps: "cycle_gaps (cycles_of periodic_blink) = [4.0, 4.0]"
  by (simp add: cycles_of_periodic cycle_gaps_def cycle_keyframes_def)

text \<open>The iterations of the loop, one by one.\<close>

lemma blink_iteration_keyframes:
  "keyframes (blink_iteration rb iv s) = keyframes s @ cycle_keyframes (current_time s)"
  by (simp add: blink_iteration_def blink_wait_keyframes blink_cycle_eq)

lemma funpow_keyframes:
  "keyframes ((blink_iteration rb iv ^^ n) s) =
     keyframes s @
     concat (map (\<lambda>i. cycle_keyframes (current_time ((blink_iteration rb iv ^^ i) s))) [0..<n])"
  by (induction n) (simp_all add: blink_iteration_keyframes)

lemma blink_loop_iterations:
  assumes "blink_loop rb iv s = Some r"
  shows "\<exists>n. r = (blink_iteration rb iv ^^ n) s \<and>
           (\<forall>i<n. current_time ((blink_iteration rb iv ^^ i) s) < 10) \<and>
           \<not> current_time r < 10"
  using assms
proof (induction rb iv s r rule: blink_loop.raw_induct)
  case (1 f rb iv s r)
  let ?F = "blink_iteration rb iv"
  show ?case
  proof (cases "current_time s < 10")
    case True
    then have run: "f rb iv (blink_wait rb iv (blink_cycle s)) = Some r"
      using "1.hyps" by (simp add: blink_total_time_def)
    have e: "blink_wait rb iv (blink_cycle s) = ?F s"
      by (simp add: blink_iteration_def)
    have run': "blink_loop rb iv (blink_wait rb iv (blink_cycle s)) = Some r"
      using "1.prems" True by (simp add: blink_loop_step)
    have "\<exists>n. r = (?F ^^ n) (?F s) \<and> (\<forall>i<n. current_time ((?F ^^ i) (?F s)) < 10) \<and>
           \<not> current_time r < 10"
      using "1.IH" [OF run run'] by (simp only: e)
    then obtain n where n: "r = (?F ^^ n) (?F s)"
      and lt: "\<forall>i<n. current_time ((?F ^^ i) (?F s)) < 10"
      and stop: "\<not> current_time r < 10"
      by (elim exE conjE)
    have r': "r = (?F ^^ Suc n) s"
      using n by (simp only: funpow_Suc_right o_apply)
    have lt': "\<forall>i<Suc n. current_time ((?F ^^ i) s) < 10"
    proof (intro allI impI)
      fix i
      assume i: "i < Suc n"
      show "current_time ((?F ^^ i) s) < 10"
      proof (cases i)
        case 0
        then show ?thesis using True by simp
      next
        case (Suc j)
        then have "j < n" using i by simp
        then have "current_time ((?F ^^ j) (?F s)) < 10"
          using lt by simp
        then show ?thesis
          by (simp only: Suc funpow_Suc_right o_apply)
      qed
    qed
    show ?thesis
      by (intro exI [where x = "Suc n"] conjI r' lt' stop)
  next
    case False
    then have "r = s"
      using "1.hyps" by (simp add: blink_total_time_def)
    then show ?thesis
      using False by (intro exI [where x = 0]) simp
  qed
qed (rule assms)

lemma create_blink_loop:
  assumes "speed \<noteq> 0"
  shows "create_eye_blink_curve speed rb g =
           map_option (\<lambda>s. Inr (keyframes s, rng_state s))
             (blink_loop rb (blink_interval rb g) (blink_start rb g))"
  using assms
  by (cases rb)
     (simp_all add: create_eye_blink_curve_def blink_interval_def blink_start_def
        random_uniform_def)

lemma blink_state_at_0: "blink_state_at rb g 0 = blink_start rb g"
  by (simp add: blink_state_at_def)

lemma blink_state_at_Suc:
  "blink_state_at rb g (Suc i) = blink_iteration rb (blink_interval rb g) (blink_state_at rb g i)"
  by (simp add: blink_state_at_def)

lemma blink_state_at_rng:
  "rng_state (blink_state_at rb g i) = (if rb then sdrop (Suc i) g else g)"
proof (induction i)
  case 0
  show ?case
    by (simp add: blink_state_at_0 blink_start_def random_uniform_def)
next
  case (Suc i)
  have "rng_state (blink_state_at rb g (Suc i))
          = (if rb then stl (rng_state (blink_state_at rb g i))
             else rng_state (blink_state_at rb g i))"
    by (simp add: blink_state_at_Suc blink_iteration_def blink_wait_rng blink_cycle_eq)
  then show ?case
    using Suc.IH by (cases rb) (simp_all add: sdrop_simps(2))
qed

lemma cycle_keyframes_last: "kf_time (last (cycle_keyframes t)) = t + 0.26"
  by (simp add: cycle_keyframes_def)

lemma blink_state_at_time:
  "current_time (blink_state_at rb g (Suc i)) =
     kf_time (last (cycle_keyframes (current_time (blink_state_at rb g i)))) +
     (if rb then fst (random_uniform (blink_interval True g * 0.7) (blink_interval True g * 1.3)
                        (sdrop (Suc i) g))
      else 4.0)"
proof (cases rb)
  case True
  have "rng_state (blink_state_at True g i) = sdrop (Suc i) g"
    by (simp add: blink_state_at_rng)
  then show ?thesis
    using True
    by (simp add: blink_state_at_Suc blink_iteration_def blink_wait_random blink_cycle_eq
        cycle_keyframes_last random_uniform_def)
next
  case False
  then show ?thesis
    by (simp add: blink_state_at_Suc blink_iteration_def blink_wait_fixed blink_cycle_eq
        cycle_keyframes_last blink_interval_def)
qed

text \<open>
  C4, amended. For a speed other than 0 and draws that are not negative the synthesis
  returns. It starts at time 0 and, as long as the current time is below the horizon of
  10 s, appends a whole cycle of twelve keyframes with the blink values that starts at
  the current time, and moves the time to the end of the cycle plus the wait: 4.0 s with
  \<open>random_blink = False\<close>, and otherwise a draw of \<open>random.uniform\<close> between 0.7 and 1.3
  times the interval. It stops at the first time that is not below the horizon. There is
  at least one cycle, every cycle starts before the horizon and none is truncated, so
  the last one may end after the horizon. With \<open>random_blink = False\<close> there are exactly
  three cycles, each starting 4.0 s after the end of the one before.
\<close>

theorem blink_cycles_whole:
  assumes "speed \<noteq> 0" and "\<forall>x \<in> sset g. 0 \<le> x"
  shows "\<exists>n kfs g'.
           create_eye_blink_curve speed random_blink g = Some (Inr (kfs, g')) \<and>
           0 < n \<and> length (cycles_of kfs) = n \<and> concat (cycles_of kfs) = kfs \<and>
           current_time (blink_state_at random_blink g 0) = 0 \<and>
           (\<forall>i<n. current_time (blink_state_at random_blink g i) < blink_total_time \<and>
              cycles_of kfs ! i =
                cycle_keyframes (current_time (blink_state_at random_blink g i)) \<and>
              map kf_value (cycles_of kfs ! i) = blink_values \<and>
              current_time (blink_state_at random_blink g (Suc i)) =
                kf_time (last (cycles_of kfs ! i)) +
                (if random_blink
                 then fst (random_uniform (blink_interval True g * 0.7)
                             (blink_interval True g * 1.3) (sdrop (Suc i) g))
                 else 4.0)) \<and>
           blink_total_time \<le> current_time (blink_state_at random_blink g n) \<and>
           g' = rng_state (blink_state_at random_blink g n) \<and>
           (\<not> random_blink \<longrightarrow> n = 3 \<and> cycle_gaps (cycles_of kfs) = [4.0, 4.0])"
proof -
  let ?st = "blink_state_at random_blink g"
  let ?iv = "blink_interval random_blink g"
  obtain kfs g' where run: "create_eye_blink_curve speed random_blink g = Some (Inr (kfs, g'))"
    using create_blink_total [OF assms, of random_blink] by (elim exE)
  then obtain r where loop: "blink_loop random_blink ?iv (blink_start random_blink g) = Some r"
    and kfs: "kfs = keyframes r" and g': "g' = rng_state r"
    by (auto simp add: create_blink_loop [OF assms(1)])
  obtain n where r: "r = ?st n"
    and lt: "\<forall>i<n. current_time (?st i) < 10"
    and stop: "\<not> current_time r < 10"
    using blink_loop_iterations [OF loop] unfolding blink_state_at_def by (elim exE conjE)
  define starts where "starts = map (\<lambda>i. current_time (?st i)) [0..<n]"
  have t0: "current_time (?st 0) = 0"
    by (simp add: blink_state_at_0 blink_start_def)
  have n0: "0 < n"
  proof (rule ccontr)
    assume "\<not> 0 < n"
    then have "n = 0" by simp
    with r stop t0 show False by simp
  qed
  have k: "kfs = concat (map cycle_keyframes starts)"
    unfolding kfs r starts_def blink_state_at_def
    by (simp add: funpow_keyframes blink_start_def comp_def)
  have cyc: "cycles_of kfs = map cycle_keyframes starts"
    unfolding k by (rule cycles_of_starts)
  have len: "length (cycles_of kfs) = n"
    by (simp add: cyc starts_def)
  have whole: "concat (cycles_of kfs) = kfs"
    unfolding k by (rule concat_cycles_of_starts)
  have nth: "\<And>i. i < n \<Longrightarrow> cycles_of kfs ! i = cycle_keyframes (current_time (?st i))"
    by (simp add: cyc starts_def)
  have each: "\<forall>i<n. current_time (?st i) < blink_total_time \<and>
              cycles_of kfs ! i = cycle_keyframes (current_time (?st i)) \<and>
              map kf_value (cycles_of kfs ! i) = blink_values \<and>
              current_time (?st (Suc i)) =
                kf_time (last (cycles_of kfs ! i)) +
                (if random_blink
                 then fst (random_uniform (blink_interval True g * 0.7)
                             (blink_interval True g * 1.3) (sdrop (Suc i) g))
                 else 4.0)"
  proof (intro allI impI conjI)
    fix i
    assume i: "i < n"
    show "current_time (?st i) < blink_total_time"
      using lt i by (simp add: blink_total_time_def)
    show "cycles_of kfs ! i = cycle_keyframes (current_time (?st i))"
      using i by (rule nth)
    show "map kf_value (cycles_of kfs ! i) = blink_values"
      by (simp only: nth [OF i] cycle_values)
    show "current_time (?st (Suc i)) =
                kf_time (last (cycles_of kfs ! i)) +
                (if random_blink
                 then fst (random_uniform (blink_interval True g * 0.7)
                             (blink_interval True g * 1.3) (sdrop (Suc i) g))
                 else 4.0)"
      by (simp only: nth [OF i] blink_state_at_time)
  qed
  have fin: "blink_total_time \<le> current_time (?st n)"
    using stop r by (simp add: blink_total_time_def)
  have gen: "g' = rng_state (?st n)"
    by (simp only: g' r)
  have per: "\<not> random_blink \<longrightarrow> n = 3 \<and> cycle_gaps (cycles_of kfs) = [4.0, 4.0]"
  proof
    assume "\<not> random_blink"
    then have p: "kfs = periodic_blink"
      using run by (auto simp add: create_periodic split: if_splits)
    have "length (cycles_of periodic_blink) = 3"
      by (simp add: cycles_of_periodic)
    then have "n = 3"
      using len by (simp only: p)
    then show "n = 3 \<and> cycle_gaps (cycles_of kfs) = [4.0, 4.0]"
      unfolding p using periodic_gaps by (intro conjI)
  qed
  show ?thesis
    by (intro exI [where x = n] exI [where x = kfs] exI [where x = g'] conjI
          run n0 len whole t0 each fin gen per)
qed

theorem blink_cycles_whole_witness:
  "(1 :: real) \<noteq> 0 \<and>
   (\<exists>kfs g'. create_eye_blink_curve 1 True rng_a = Some (Inr (kfs, g')) \<and>
      kfs = concat (map cycle_keyframes [0, 2.46, 4.92, 7.38, 9.84]) \<and>
      length (cycles_of kfs) = 5 \<and> concat (cycles_of kfs) = kfs \<and>
      current_time (blink_state_at True rng_a 4) < blink_total_time \<and>
      blink_total_time \<le> current_time (blink_state_at True rng_a 5))"
proof -
  have h: "(1 :: real) \<noteq> 0" by simp
  have draws: "\<forall>x \<in> sset rng_a. 0 \<le> x"
    by (simp add: rng_a_def)
  obtain n kfs g' where run: "create_eye_blink_curve 1 True rng_a = Some (Inr (kfs, g'))"
    and len: "length (cycles_of kfs) = n"
    and c: "concat (cycles_of kfs) = kfs"
    and lt: "\<forall>i<n. current_time (blink_state_at True rng_a i) < blink_total_time"
    and fin: "blink_total_time \<le> current_time (blink_state_at True rng_a n)"
    using blink_cycles_whole [OF h draws, of True] by (elim exE conjE) blast
  have k: "kfs = concat (map cycle_keyframes [0, 2.46, 4.92, 7.38, 9.84])"
    using run by (simp only: rng_a_run option.inject sum.inject prod.inject)
  have "length (cycles_of (concat (map cycle_keyframes [0, 2.46, 4.92, 7.38, 9.84]))) = 5"
    by (simp only: cycles_of_starts) simp
  then have l5: "length (cycles_of kfs) = 5"
    by (simp only: k)
  then have n: "n = 5"
    using len by simp
  have a: "current_time (blink_state_at True rng_a 4) < blink_total_time"
    using lt n by simp
  have b: "blink_total_time \<le> current_time (blink_state_at True rng_a 5)"
    using fin by (simp only: n)
  show ?thesis
    by (intro conjI h exI [where x = kfs] exI [where x = g'] run k l5 c a b)
qed

section \<open>Reproducibility of the blink curve\<close>




text \<open>
  The function has no seed argument: it draws from the generator of the process, whose
  state a call of \<open>random.seed\<close> fixes. Without such a call between them, two successive
  calls with the same arguments start from different states, the second from the state
  the first one leaves, and here give 60 and 24 keyframes.
\<close>

lemma successive_calls_differ:
  "\<exists>k1 g1 k2 g2. create_eye_blink_curve 1 True rng_a = Some (Inr (k1, g1)) \<and>
      create_eye_blink_curve 1 True g1 = Some (Inr (k2, g2)) \<and>
      length k1 = 60 \<and> length k2 = 24"
proof -
  have a: "length (concat (map cycle_keyframes [0, 2.46, 4.92, 7.38, 9.84])) = 60"
    by (simp add: length_cycle_keyframes)
  have b: "length (concat (map cycle_keyframes [0, 809 / 150])) = 24"
    by (simp add: length_cycle_keyframes)
  show ?thesis
    by (intro exI [where x = "concat (map cycle_keyframes [0, 2.46, 4.92, 7.38, 9.84])"]
        exI [where x = "sconst (2 / 3)"]
        exI [where x = "concat (map cycle_keyframes [0, 809 / 150])"]
        conjI rng_a_run rng_a_second_run a b)
qed




section \<open>Properties of the lip sync, head rotation and breathing curves\<close>

lemma lip_sync_syllable_eq:
  "lip_sync_syllable (kfs, g) i =
     (kfs @ syllable_keyframes (real i * (5.0 / 10)) (fst (random_uniform 0.3 0.7 g)), stl g)"
  by (simp add: lip_sync_syllable_def syllable_keyframes_def random_uniform_def
      lip_total_time_def syllable_count_def Let_def)

lemma lip_sync_fold:
  "foldl lip_sync_syllable (kfs, g) [0..<n] =
     (kfs @ concat (map (\<lambda>i. syllable_keyframes (real i * (5.0 / 10))
                             (fst (random_uniform 0.3 0.7 (sdrop i g)))) [0..<n]),
      sdrop n g)"
proof (induction n)
  case 0
  show ?case by simp
next
  case (Suc n)
  let ?F = "\<lambda>i. syllable_keyframes (real i * (5.0 / 10))
                             (fst (random_uniform 0.3 0.7 (sdrop i g)))"
  have "foldl lip_sync_syllable (kfs, g) [0..<Suc n]
          = lip_sync_syllable (foldl lip_sync_syllable (kfs, g) [0..<n]) n"
    by (simp only: upt_Suc_append [OF le0] foldl_append foldl.simps)
  also have "\<dots> = lip_sync_syllable (kfs @ concat (map ?F [0..<n]), sdrop n g) n"
    by (simp only: Suc.IH)
  also have "\<dots> = ((kfs @ concat (map ?F [0..<n])) @ ?F n, stl (sdrop n g))"
    by (rule lip_sync_syllable_eq)
  also have "\<dots> = (kfs @ concat (map ?F [0..<Suc n]), sdrop (Suc n) g)"
    by (simp only: upt_Suc_append [OF le0] map_append concat_append list.map concat.simps
        append_Nil2 append_assoc sdrop_simps)
  finally show ?case .
qed

lemma random_uniform_bounds:
  assumes "a \<le> b" "0 \<le> shd g" "shd g \<le> 1"
  shows "a \<le> fst (random_uniform a b g) \<and> fst (random_uniform a b g) \<le> b"
proof -
  have "0 \<le> (b - a) * shd g"
    using assms by simp
  moreover have "(b - a) * shd g \<le> (b - a) * 1"
    by (rule mult_left_mono) (simp_all add: assms)
  ultimately show ?thesis
    by (simp add: random_uniform_def)
qed

lemma sample_indices_eq: "sample_indices = [0..<101]"
  by (simp add: sample_indices_def curve_total_time_def curve_step_def)


lemma head_rotation_eq:
  "create_head_rotation_curve axis [min_val, max_val] =
     Inr (map (\<lambda>t. \<lparr>kf_time = real t * 0.1,
                     kf_value = (min_val + max_val) / 2 + (max_val - min_val) / 2 *
                        sin (2 * pi * axis_frequency axis * (real t * 0.1) + axis_phase axis)\<rparr>)
            [0..<101])"
  by (simp only: create_head_rotation_curve_def sample_indices_eq curve_step_def Let_def
      list.case)












subsection \<open>How close the phase literals are to a quarter and a half turn\<close>

lemma cos_poly_bound:
  "\<bar>cos (x::real) - (\<Sum>m<n. cos_coeff m * x ^ m)\<bar> \<le> \<bar>x\<bar> ^ n / fact n"
proof -
  obtain t where "cos x = (\<Sum>m<n. cos_coeff m * x ^ m) + (cos (t + 1/2 * real n * pi) / fact n) * x ^ n"
    using Maclaurin_cos_expansion [of x n] by (elim exE conjE)
  then have "\<bar>cos x - (\<Sum>m<n. cos_coeff m * x ^ m)\<bar> = \<bar>cos (t + 1/2 * real n * pi)\<bar> * (\<bar>x\<bar> ^ n / fact n)"
    by (simp add: abs_mult power_abs)
  also have "\<dots> \<le> 1 * (\<bar>x\<bar> ^ n / fact n)"
    by (rule mult_right_mono) simp_all
  finally show ?thesis by simp
qed

lemma sum_lessThan_10:
  "(\<Sum>m<(10::nat). f m) = f 0 + f 1 + f 2 + f 3 + f 4 + f 5 + f 6 + f 7 + f 8 + (f 9 :: real)"
  by (simp add: eval_nat_numeral)

lemma cos_coeff_values:
  "cos_coeff 0 = 1" "cos_coeff 1 = 0" "cos_coeff 2 = - 1 / 2" "cos_coeff 3 = 0"
  "cos_coeff 4 = 1 / 24" "cos_coeff 5 = 0" "cos_coeff 6 = - 1 / 720" "cos_coeff 7 = 0"
  "cos_coeff 8 = 1 / 40320" "cos_coeff 9 = 0"
  by (simp_all add: cos_coeff_def fact_numeral)

lemma cos_sum10:
  "(\<Sum>m<10. cos_coeff m * (x::real) ^ m) = 1 - x^2 / 2 + x^4 / 24 - x^6 / 720 + x^8 / 40320"
  unfolding sum_lessThan_10 cos_coeff_values by simp

lemma cos_157_pos: "0 < cos (1.57 :: real)"
proof -
  have "\<bar>cos (1.57::real) - (\<Sum>m<10. cos_coeff m * 1.57 ^ m)\<bar> \<le> \<bar>1.57\<bar> ^ 10 / fact 10"
    by (rule cos_poly_bound)
  then have "(\<Sum>m<10. cos_coeff m * (1.57::real) ^ m) - \<bar>1.57\<bar> ^ 10 / fact 10 \<le> cos 1.57"
    by linarith
  moreover have "0 < (\<Sum>m<10. cos_coeff m * (1.57::real) ^ m) - \<bar>1.57\<bar> ^ 10 / fact 10"
    unfolding cos_sum10 by (simp add: fact_numeral power_divide)
  ultimately show ?thesis by linarith
qed

lemma cos_1571_neg: "cos (1.571 :: real) < 0"
proof -
  have "\<bar>cos (1.571::real) - (\<Sum>m<10. cos_coeff m * 1.571 ^ m)\<bar> \<le> \<bar>1.571\<bar> ^ 10 / fact 10"
    by (rule cos_poly_bound)
  then have "cos 1.571 \<le> (\<Sum>m<10. cos_coeff m * (1.571::real) ^ m) + \<bar>1.571\<bar> ^ 10 / fact 10"
    by linarith
  moreover have "(\<Sum>m<10. cos_coeff m * (1.571::real) ^ m) + \<bar>1.571\<bar> ^ 10 / fact 10 < 0"
    unfolding cos_sum10 by (simp add: fact_numeral power_divide)
  ultimately show ?thesis by linarith
qed

lemma pi_half_bounds: "1.57 < pi / 2 \<and> pi / 2 < 1.571"
proof
  show "1.57 < pi / 2"
  proof (rule ccontr)
    assume "\<not> 1.57 < pi / 2"
    then have "pi / 2 \<le> 1.57" by simp
    moreover have "(1.57::real) \<le> 2" by simp
    then have "(1.57::real) \<le> pi" using pi_ge_two by linarith
    ultimately have "cos 1.57 \<le> cos (pi / 2)"
      by (intro cos_monotone_0_pi_le) simp_all
    then show False using cos_157_pos by simp
  qed
  show "pi / 2 < 1.571"
  proof (rule ccontr)
    assume "\<not> pi / 2 < 1.571"
    then have "1.571 \<le> pi / 2" by simp
    moreover have "pi / 2 \<le> pi" by simp
    ultimately have "cos (pi / 2) \<le> cos 1.571"
      by (intro cos_monotone_0_pi_le) simp_all
    then show False using cos_1571_neg by simp
  qed
qed

subsection \<open>The curves\<close>

lemma length_syllable_keyframes: "length (syllable_keyframes start max_open) = 4"
  by (simp add: syllable_keyframes_def)

lemma length_concat_syllables:
  "length (concat (map (\<lambda>i. syllable_keyframes (f i) (h i)) [0..<n])) = 4 * n"
  by (induction n) (simp_all add: length_syllable_keyframes)

text \<open>
  C7. The lip sync has ten syllables of four keyframes each; syllable \<open>i\<close> starts at
  \<open>i * (5.0 / 10)\<close> with value 0, has the \<open>i\<close>-th draw of \<open>random.uniform(0.3, 0.7)\<close>
  at start + 0.1, value 0.2 at start + 0.2 and value 0 at start + 0.3; the drawn value
  lies between 0.3 and 0.7 when the underlying \<open>random.random()\<close> lies between 0 and 1.
\<close>

theorem lip_sync_syllables:
  "create_sample_lip_sync g =
     (concat (map (\<lambda>i. syllable_keyframes (real i * (5.0 / 10))
                          (fst (random_uniform 0.3 0.7 (sdrop i g)))) [0..<10]),
      sdrop 10 g) \<and>
   length (fst (create_sample_lip_sync g)) = 40 \<and>
   (\<forall>i. fst (random_uniform 0.3 0.7 (sdrop i g)) = 0.3 + (0.7 - 0.3) * (g !! i) \<and>
      (0 \<le> g !! i \<and> g !! i \<le> 1 \<longrightarrow>
         0.3 \<le> fst (random_uniform 0.3 0.7 (sdrop i g)) \<and>
         fst (random_uniform 0.3 0.7 (sdrop i g)) \<le> 0.7))"
proof (intro conjI allI impI)
  show a: "create_sample_lip_sync g =
     (concat (map (\<lambda>i. syllable_keyframes (real i * (5.0 / 10))
                          (fst (random_uniform 0.3 0.7 (sdrop i g)))) [0..<10]),
      sdrop 10 g)"
    by (simp only: create_sample_lip_sync_def syllable_count_def lip_sync_fold append_Nil)
  show "length (fst (create_sample_lip_sync g)) = 40"
    by (simp only: a fst_conv length_concat_syllables)
next
  fix i
  show "fst (random_uniform 0.3 0.7 (sdrop i g)) = 0.3 + (0.7 - 0.3) * (g !! i)"
    by (simp only: random_uniform_def fst_conv sdrop_simps)
next
  fix i
  assume "0 \<le> g !! i \<and> g !! i \<le> 1"
  then have u: "0 \<le> shd (sdrop i g)" "shd (sdrop i g) \<le> 1"
    by (simp_all only: sdrop_simps)
  have "(0.3 :: real) \<le> 0.7" by simp
  then have b: "0.3 \<le> fst (random_uniform 0.3 0.7 (sdrop i g)) \<and>
             fst (random_uniform 0.3 0.7 (sdrop i g)) \<le> 0.7"
    using u by (rule random_uniform_bounds)
  from b show "0.3 \<le> fst (random_uniform 0.3 0.7 (sdrop i g))" by (rule conjunct1)
  from b show "fst (random_uniform 0.3 0.7 (sdrop i g)) \<le> 0.7" by (rule conjunct2)
qed

theorem lip_sync_syllables_witness:
  "0 \<le> rng_half !! 3 \<and> rng_half !! 3 \<le> 1 \<and>
   length (fst (create_sample_lip_sync rng_half)) = 40 \<and>
   0.3 \<le> fst (random_uniform 0.3 0.7 (sdrop 3 rng_half)) \<and>
   fst (random_uniform 0.3 0.7 (sdrop 3 rng_half)) \<le> 0.7"
proof -
  have h: "rng_half !! 3 = 1 / 2"
    by (simp add: rng_half_def)
  have u: "0 \<le> rng_half !! 3 \<and> rng_half !! 3 \<le> 1"
    by (simp add: h)
  have t: "length (fst (create_sample_lip_sync rng_half)) = 40"
    using lip_sync_syllables [of rng_half] by (elim conjE)
  have "0 \<le> rng_half !! 3 \<and> rng_half !! 3 \<le> 1 \<longrightarrow>
         0.3 \<le> fst (random_uniform 0.3 0.7 (sdrop 3 rng_half)) \<and>
         fst (random_uniform 0.3 0.7 (sdrop 3 rng_half)) \<le> 0.7"
    using lip_sync_syllables [of rng_half] by (elim conjE allE [where x = 3])
  then have b: "0.3 \<le> fst (random_uniform 0.3 0.7 (sdrop 3 rng_half)) \<and>
         fst (random_uniform 0.3 0.7 (sdrop 3 rng_half)) \<le> 0.7"
    using u by (rule mp)
  show ?thesis
    using u t b by (intro conjI) (elim conjE; assumption)+
qed

text \<open>
  C6. For a range \<open>[min_val, max_val]\<close> the head rotation curve of an axis has the 101
  keyframes at the times \<open>k * 0.1\<close>, \<open>k\<close> from 0 to 100, with the value
  \<open>mid + amplitude * sin (2 * pi * frequency * t + phase)\<close>; the frequencies are 0.2,
  0.15 and 0.1 for x, y and z, and the phases 0, 1.57 and 3.14, which are a quarter turn
  and a half turn apart up to 0.001 and 0.002 radians.
\<close>

theorem head_rotation_samples:
  "\<exists>kfs. create_head_rotation_curve axis [min_val, max_val] = Inr kfs \<and>
     length kfs = 101 \<and>
     (\<forall>k \<le> 100. kfs ! k =
        \<lparr>kf_time = real k * 0.1,
         kf_value = (min_val + max_val) / 2 + (max_val - min_val) / 2 *
            sin (2 * pi * axis_frequency axis * (real k * 0.1) + axis_phase axis)\<rparr>) \<and>
     axis_frequency ''x'' = 0.2 \<and> axis_frequency ''y'' = 0.15 \<and> axis_frequency ''z'' = 0.1 \<and>
     axis_phase ''x'' = 0 \<and> axis_phase ''y'' = 1.57 \<and> axis_phase ''z'' = 3.14 \<and>
     \<bar>(axis_phase ''y'' - axis_phase ''x'') - pi / 2\<bar> < 0.001 \<and>
     \<bar>(axis_phase ''z'' - axis_phase ''y'') - pi / 2\<bar> < 0.001 \<and>
     \<bar>(axis_phase ''z'' - axis_phase ''x'') - pi\<bar> < 0.002"
proof -
  let ?F = "\<lambda>t. \<lparr>kf_time = real t * 0.1,
                     kf_value = (min_val + max_val) / 2 + (max_val - min_val) / 2 *
                        sin (2 * pi * axis_frequency axis * (real t * 0.1) + axis_phase axis)\<rparr>"
  have a: "create_head_rotation_curve axis [min_val, max_val] = Inr (map ?F [0..<101])"
    by (rule head_rotation_eq)
  have b: "length (map ?F [0..<101]) = 101"
    by simp
  have c: "\<forall>k \<le> 100. map ?F [0..<101] ! k = ?F k"
  proof (intro allI impI)
    fix k :: nat
    assume "k \<le> 100"
    then have "k < length [0..<101]" by simp
    then have "map ?F [0..<101] ! k = ?F ([0..<101] ! k)" by (rule nth_map)
    also have "[0..<101] ! k = k" using \<open>k \<le> 100\<close> by simp
    finally show "map ?F [0..<101] ! k = ?F k" .
  qed
  have f: "axis_frequency ''x'' = 0.2" "axis_frequency ''y'' = 0.15" "axis_frequency ''z'' = 0.1"
    by (simp_all add: axis_frequency_def)
  have p: "axis_phase ''x'' = 0" "axis_phase ''y'' = 1.57" "axis_phase ''z'' = 3.14"
    by (simp_all add: axis_phase_def)
  have q: "\<bar>(axis_phase ''y'' - axis_phase ''x'') - pi / 2\<bar> < 0.001"
    "\<bar>(axis_phase ''z'' - axis_phase ''y'') - pi / 2\<bar> < 0.001"
    "\<bar>(axis_phase ''z'' - axis_phase ''x'') - pi\<bar> < 0.002"
    using pi_half_bounds by (simp_all add: p)
  show ?thesis
    by (intro exI [where x = "map ?F [0..<101]"] conjI a b c f p q)
qed

theorem head_rotation_samples_witness:
  "(0 :: nat) \<le> 100 \<and>
   (\<exists>kfs. create_head_rotation_curve ''x'' [- 30, 30] = Inr kfs \<and> length kfs = 101 \<and>
      kfs ! 0 = \<lparr>kf_time = 0, kf_value = 0\<rparr>)"
proof -
  obtain kfs where a: "create_head_rotation_curve ''x'' [- 30, 30] = Inr kfs"
    and b: "length kfs = 101"
    and c: "\<forall>k \<le> 100. kfs ! k =
        \<lparr>kf_time = real k * 0.1,
         kf_value = (- 30 + 30) / 2 + (30 - (- 30)) / 2 *
            sin (2 * pi * axis_frequency ''x'' * (real k * 0.1) + axis_phase ''x'')\<rparr>"
    using head_rotation_samples [of "''x''" "- 30" 30] by (elim exE conjE)
  have "kfs ! 0 = \<lparr>kf_time = 0, kf_value = 0\<rparr>"
    using c by (simp add: axis_phase_def)
  then show ?thesis
    using a b by (intro conjI exI [where x = kfs]) simp_all
qed




end
